theory Spec2Isabelle
  imports Main "HOL-Library.Sublist"
begin

section \<open>Strings and JavaScript values\<close>

text \<open>
  The tool is one Node.js script, \<^verbatim>\<open>storyboard_tool.js\<close>. Its texts are modelled as
  \<^typ>\<open>string\<close>, the list of the bytes of the UTF-8 form in which the script reads and
  writes every file. All the tokens the script searches for are ASCII, and an ASCII byte
  never occurs inside a multi-byte character, so searching and splicing on bytes agree
  with the script's operations on its own strings. The characters beyond ASCII that the
  script's literals contain are named below.
\<close>

definition u2011 :: string where "u2011 = [CHR 0xE2, CHR 0x80, CHR 0x91]"
definition u2013 :: string where "u2013 = [CHR 0xE2, CHR 0x80, CHR 0x93]"
definition u201C :: string where "u201C = [CHR 0xE2, CHR 0x80, CHR 0x9C]"
definition u201D :: string where "u201D = [CHR 0xE2, CHR 0x80, CHR 0x9D]"
definition u2022 :: string where "u2022 = [CHR 0xE2, CHR 0x80, CHR 0xA2]"
definition u2026 :: string where "u2026 = [CHR 0xE2, CHR 0x80, CHR 0xA6]"
definition u202F :: string where "u202F = [CHR 0xE2, CHR 0x80, CHR 0xAF]"
definition u2248 :: string where "u2248 = [CHR 0xE2, CHR 0x89, CHR 0x88]"
definition u2264 :: string where "u2264 = [CHR 0xE2, CHR 0x89, CHR 0xA4]"

definition isAlpha :: "char \<Rightarrow> bool" where
  "isAlpha c = (let n = (of_char c :: nat) in (65 \<le> n \<and> n \<le> 90) \<or> (97 \<le> n \<and> n \<le> 122))"

definition isDigit :: "char \<Rightarrow> bool" where
  "isDigit c = (let n = (of_char c :: nat) in 48 \<le> n \<and> n \<le> 57)"

definition isAlnum :: "char \<Rightarrow> bool" where
  "isAlnum c = (isAlpha c \<or> isDigit c)"

text \<open>The characters that \<^verbatim>\<open>.\<close> of a regular expression does not match (within ASCII).\<close>

definition isLineTerminator :: "char \<Rightarrow> bool" where
  "isLineTerminator c = (c = CHR 0x0A \<or> c = CHR 0x0D)"

text \<open>\<^verbatim>\<open>toUpperCase\<close> on one character; exact on ASCII, other bytes are left as they are.\<close>

definition toUpperCase_char :: "char \<Rightarrow> char" where
  "toUpperCase_char c =
     (case map_of (zip ''abcdefghijklmnopqrstuvwxyz'' ''ABCDEFGHIJKLMNOPQRSTUVWXYZ'') c of
        Some u \<Rightarrow> u
      | None \<Rightarrow> c)"

text \<open>
  \<^verbatim>\<open>String.prototype.trim\<close> removes white space and line terminators from both ends:
  TAB, LF, VT, FF, CR, SP, and U+00A0, U+1680, U+2000 to U+200A, U+2028, U+2029, U+202F,
  U+205F, U+3000, U+FEFF, here in their UTF-8 form.
\<close>

definition ws_seqs :: "string list" where
  "ws_seqs =
     [[CHR 0x09], [CHR 0x0A], [CHR 0x0B], [CHR 0x0C], [CHR 0x0D], [CHR 0x20],
      [CHR 0xC2, CHR 0xA0], [CHR 0xE1, CHR 0x9A, CHR 0x80],
      [CHR 0xE2, CHR 0x80, CHR 0x80], [CHR 0xE2, CHR 0x80, CHR 0x81],
      [CHR 0xE2, CHR 0x80, CHR 0x82], [CHR 0xE2, CHR 0x80, CHR 0x83],
      [CHR 0xE2, CHR 0x80, CHR 0x84], [CHR 0xE2, CHR 0x80, CHR 0x85],
      [CHR 0xE2, CHR 0x80, CHR 0x86], [CHR 0xE2, CHR 0x80, CHR 0x87],
      [CHR 0xE2, CHR 0x80, CHR 0x88], [CHR 0xE2, CHR 0x80, CHR 0x89],
      [CHR 0xE2, CHR 0x80, CHR 0x8A], [CHR 0xE2, CHR 0x80, CHR 0xA8],
      [CHR 0xE2, CHR 0x80, CHR 0xA9], [CHR 0xE2, CHR 0x80, CHR 0xAF],
      [CHR 0xE2, CHR 0x81, CHR 0x9F], [CHR 0xE3, CHR 0x80, CHR 0x80],
      [CHR 0xEF, CHR 0xBB, CHR 0xBF]]"

function strip_ws :: "string list \<Rightarrow> string \<Rightarrow> string" where
  "strip_ws ws s =
     (case List.find (\<lambda>w. w \<noteq> [] \<and> prefix w s) ws of
        None \<Rightarrow> s
      | Some w \<Rightarrow> strip_ws ws (drop (length w) s))"
  by pat_completeness auto
termination
proof (relation "measure (\<lambda>(ws, s). length s)")
  show "wf (measure (\<lambda>(ws, s). length s))" by simp
next
  fix ws :: "string list" and s w :: string
  assume "List.find (\<lambda>w. w \<noteq> [] \<and> prefix w s) ws = Some w"
  then have "w \<noteq> []" and "prefix w s"
    by (auto simp: find_Some_iff)
  then have "s \<noteq> []" by auto
  with \<open>w \<noteq> []\<close> show "((ws, drop (length w) s), (ws, s)) \<in> measure (\<lambda>(ws, s). length s)"
    by simp
qed

declare strip_ws.simps [simp del]

definition js_trim :: "string \<Rightarrow> string" where
  "js_trim s = rev (strip_ws (map rev ws_seqs) (rev (strip_ws ws_seqs s)))"

text \<open>
  The first occurrence of a text in a string: the text before it and the text after it
  (\<^verbatim>\<open>indexOf\<close>, and the search of a regular expression for a literal).
\<close>

fun find_first :: "string \<Rightarrow> string \<Rightarrow> (string \<times> string) option" where
  "find_first pat [] = (if pat = [] then Some ([], []) else None)"
| "find_first pat (c # cs) =
     (if prefix pat (c # cs) then Some ([], drop (length pat) (c # cs))
      else map_option (\<lambda>(b, a). (c # b, a)) (find_first pat cs))"

text \<open>
  \<^verbatim>\<open>String.prototype.replace(pattern, replacement)\<close> with two strings replaces the first
  occurrence of the pattern. The replacement is a template: \<^verbatim>\<open>$$\<close> stands for a dollar
  sign, \<^verbatim>\<open>$&\<close> for the matched text, \<^verbatim>\<open>$`\<close> for the text before the match and
  \<^verbatim>\<open>$'\<close> for the text after it; a string pattern has no groups, so every other
  \<^verbatim>\<open>$\<close> stands for itself.
\<close>

fun get_substitution :: "string \<Rightarrow> string \<Rightarrow> string \<Rightarrow> string \<Rightarrow> string" where
  "get_substitution matched preceding following [] = []"
| "get_substitution matched preceding following [c] = [c]"
| "get_substitution matched preceding following (c # d # r) =
     (if c = CHR ''$'' \<and> d = CHR ''$'' then CHR ''$'' # get_substitution matched preceding following r
      else if c = CHR ''$'' \<and> d = CHR ''&'' then matched @ get_substitution matched preceding following r
      else if c = CHR ''$'' \<and> d = CHR 0x60 then preceding @ get_substitution matched preceding following r
      else if c = CHR ''$'' \<and> d = CHR 0x27 then following @ get_substitution matched preceding following r
      else c # get_substitution matched preceding following (d # r))"

definition js_replace :: "string \<Rightarrow> string \<Rightarrow> string \<Rightarrow> string" where
  "js_replace s pat repl =
     (case find_first pat s of
        None \<Rightarrow> s
      | Some (preceding, following) \<Rightarrow> preceding @ get_substitution pat preceding following repl @ following)"

text \<open>Decimal digits of a number, for the conversion of numbers to strings.\<close>

function show_nat :: "nat \<Rightarrow> string" where
  "show_nat n =
     (if n < 10 then [''0123456789'' ! n]
      else show_nat (n div 10) @ [''0123456789'' ! (n mod 10)])"
  by pat_completeness auto
termination
  by (relation "measure id") auto

declare show_nat.simps [simp del]

definition show_int :: "int \<Rightarrow> string" where
  "show_int i = (if i < 0 then CHR ''-'' # show_nat (nat (- i)) else show_nat (nat i))"

text \<open>
  The values that the script handles are those of JSON, together with \<^verbatim>\<open>undefined\<close>
  (what reading a missing property gives) and \<^verbatim>\<open>NaN\<close> (what arithmetic on a
  non-number gives). Numbers are modelled as integers: the model covers the documents
  whose numbers are integers that a double represents exactly. An object is the
  association list of its own properties, each key once, in the order of the parser.
\<close>

datatype jsval =
    Undefined
  | Null
  | Bool bool
  | Num int
  | NaN
  | Str string
  | Arr "jsval list"
  | Obj "(string \<times> jsval) list"

fun truthy :: "jsval \<Rightarrow> bool" where
  "truthy Undefined = False"
| "truthy Null = False"
| "truthy (Bool b) = b"
| "truthy (Num n) = (n \<noteq> 0)"
| "truthy NaN = False"
| "truthy (Str s) = (s \<noteq> [])"
| "truthy (Arr xs) = True"
| "truthy (Obj kvs) = True"

text \<open>The operator \<^verbatim>\<open>a || b\<close>.\<close>

definition js_or :: "jsval \<Rightarrow> jsval \<Rightarrow> jsval" where
  "js_or a b = (if truthy a then a else b)"

definition join_with :: "string \<Rightarrow> string list \<Rightarrow> string" where
  "join_with sep xs = concat (case xs of [] \<Rightarrow> [] | x # r \<Rightarrow> x # map (\<lambda>y. sep @ y) r)"

text \<open>\<^verbatim>\<open>ToString\<close>, as a template literal and string concatenation apply it.\<close>

fun js_to_string :: "jsval \<Rightarrow> string" where
  "js_to_string Undefined = ''undefined''"
| "js_to_string Null = ''null''"
| "js_to_string (Bool b) = (if b then ''true'' else ''false'')"
| "js_to_string (Num n) = show_int n"
| "js_to_string NaN = ''NaN''"
| "js_to_string (Str s) = s"
| "js_to_string (Arr xs) =
     join_with '',''
       (map (\<lambda>x. if x = Undefined \<or> x = Null then [] else js_to_string x) xs)"
| "js_to_string (Obj kvs) = ''[object Object]''"

text \<open>
  \<^verbatim>\<open>ToNumber\<close>. Of the numeric strings only the decimal integers denote a number of the
  model; the others are not representable here and are read as \<^verbatim>\<open>NaN\<close>.
\<close>

definition digits_value :: "string \<Rightarrow> int" where
  "digits_value ds = foldl (\<lambda>acc c. 10 * acc + (int (of_char c) - 48)) 0 ds"

definition string_to_number :: "string \<Rightarrow> jsval" where
  "string_to_number s =
     (let t = js_trim s in
      if t = [] then Num 0
      else if list_all isDigit t then Num (digits_value t)
      else if hd t = CHR ''+'' \<and> tl t \<noteq> [] \<and> list_all isDigit (tl t) then Num (digits_value (tl t))
      else if hd t = CHR ''-'' \<and> tl t \<noteq> [] \<and> list_all isDigit (tl t) then Num (- digits_value (tl t))
      else NaN)"

fun js_to_number :: "jsval \<Rightarrow> jsval" where
  "js_to_number Undefined = NaN"
| "js_to_number Null = Num 0"
| "js_to_number (Bool b) = Num (if b then 1 else 0)"
| "js_to_number (Num n) = Num n"
| "js_to_number NaN = NaN"
| "js_to_number (Str s) = string_to_number s"
| "js_to_number (Arr xs) = string_to_number (js_to_string (Arr xs))"
| "js_to_number (Obj kvs) = NaN"

text \<open>\<^verbatim>\<open>ToPrimitive\<close>: an array or an object becomes its string.\<close>

fun js_to_primitive :: "jsval \<Rightarrow> jsval" where
  "js_to_primitive (Arr xs) = Str (js_to_string (Arr xs))"
| "js_to_primitive (Obj kvs) = Str (js_to_string (Obj kvs))"
| "js_to_primitive v = v"

fun is_Str :: "jsval \<Rightarrow> bool" where
  "is_Str (Str s) = True"
| "is_Str v = False"

text \<open>The operators \<^verbatim>\<open>a + b\<close> and \<^verbatim>\<open>a * b\<close>.\<close>

definition js_add :: "jsval \<Rightarrow> jsval \<Rightarrow> jsval" where
  "js_add a b =
     (let pa = js_to_primitive a; pb = js_to_primitive b in
      if is_Str pa \<or> is_Str pb then Str (js_to_string pa @ js_to_string pb)
      else (case (js_to_number pa, js_to_number pb) of
              (Num x, Num y) \<Rightarrow> Num (x + y)
            | _ \<Rightarrow> NaN))"

definition js_mul :: "jsval \<Rightarrow> jsval \<Rightarrow> jsval" where
  "js_mul a b =
     (case (js_to_number a, js_to_number b) of
        (Num x, Num y) \<Rightarrow> Num (x * y)
      | _ \<Rightarrow> NaN)"

text \<open>
  The operator \<^verbatim>\<open>a === b\<close>. Two objects are equal only when they are the same object;
  the script never compares an object with itself, so an array or an object equals
  nothing here.
\<close>

fun js_strict_eq :: "jsval \<Rightarrow> jsval \<Rightarrow> bool" where
  "js_strict_eq Undefined Undefined = True"
| "js_strict_eq Null Null = True"
| "js_strict_eq (Bool a) (Bool b) = (a = b)"
| "js_strict_eq (Num a) (Num b) = (a = b)"
| "js_strict_eq (Str a) (Str b) = (a = b)"
| "js_strict_eq a b = False"

text \<open>
  What the script throws. It throws plain \<^verbatim>\<open>Error\<close> objects, told apart by their
  messages; the run-time system adds \<^verbatim>\<open>TypeError\<close> (a property of \<^verbatim>\<open>undefined\<close> or
  \<^verbatim>\<open>null\<close> is read, or something that is not a function is called), the errors of the
  file system, and a rejected request or response body.
\<close>

datatype error =
    MissingInput
  | MissingOutput
  | ApiKeyNotSet
  | ApiError nat string
  | NoYamlBlock
  | NoJsonBlock
  | InvalidJson string
  | TypeError
  | FsError
  | FetchError

text \<open>The names that the specification (section 7) gives to these errors.\<close>

datatype error_class = ConfigurationError | ServiceError | ExtractionError | ParseError | Uncategorised

fun classify :: "error \<Rightarrow> error_class" where
  "classify MissingInput = ConfigurationError"
| "classify MissingOutput = ConfigurationError"
| "classify ApiKeyNotSet = ConfigurationError"
| "classify (ApiError status body) = ServiceError"
| "classify NoYamlBlock = ExtractionError"
| "classify NoJsonBlock = ExtractionError"
| "classify (InvalidJson msg) = ParseError"
| "classify e = Uncategorised"

text \<open>
  Reading a property \<^verbatim>\<open>v.k\<close>. The script reads data properties only (\<^verbatim>\<open>meta\<close>,
  \<^verbatim>\<open>slides\<close>, \<^verbatim>\<open>durationSec\<close>, ...), none of which a string, a number, a boolean or
  an array has of its own.
\<close>

fun get_prop :: "jsval \<Rightarrow> string \<Rightarrow> error + jsval" where
  "get_prop Undefined k = Inl TypeError"
| "get_prop Null k = Inl TypeError"
| "get_prop (Obj kvs) k = Inr (case map_of kvs k of Some v \<Rightarrow> v | None \<Rightarrow> Undefined)"
| "get_prop v k = Inr Undefined"

text \<open>Reading an element \<^verbatim>\<open>v[i]\<close>.\<close>

fun get_index :: "jsval \<Rightarrow> nat \<Rightarrow> error + jsval" where
  "get_index Undefined i = Inl TypeError"
| "get_index Null i = Inl TypeError"
| "get_index (Arr xs) i = Inr (if i < length xs then xs ! i else Undefined)"
| "get_index (Str s) i = Inr (if i < length s then Str [s ! i] else Undefined)"
| "get_index (Obj kvs) i = Inr (case map_of kvs (show_nat i) of Some v \<Rightarrow> v | None \<Rightarrow> Undefined)"
| "get_index v i = Inr Undefined"

text \<open>The optional chain \<^verbatim>\<open>v?.k\<close>.\<close>

definition get_prop_opt :: "jsval \<Rightarrow> string \<Rightarrow> jsval" where
  "get_prop_opt v k = (case get_prop v k of Inl e \<Rightarrow> Undefined | Inr x \<Rightarrow> x)"

section \<open>The prompt composer\<close>

text \<open>The lines of \<^verbatim>\<open>MASTER_PROMPT\<close>, which the script joins with line feeds.\<close>

definition MASTER_PROMPT_lines :: "string list" where
  \<open>MASTER_PROMPT_lines =
    [''You are '' @ u201C @ ''Storyboard'' @ u2011 @ ''AI'' @ u201D @
       '', a film director who outputs YAML'' @ u2011 @ ''based storyboards for Remotion.'',
     ''Input research (verbatim, multi'' @ u2011 @
       ''thousand words) is delimited by <<<RESEARCH>>> '' @ u2026 @ '' <<<END>>>.'',
     ''Tasks:'',
     [],
     ''1. **Narrative arc** '' @ u2013 @
       '' Decide Act I (hook / problem), Act II (analysis / tension), '' @
       ''Act III (resolution / call'' @ u2011 @ ''to'' @ u2011 @ ''action).'',
     ''2. **Slide breakdown** '' @ u2013 @
       '' Partition the story into numbered scenes ('' @ u2248 @ ''15'' @ u2011 @
       ''45 sec each).'',
     ''3. **For every slide**, output:'',
     ''   '' @ u2022 @ '' 'id' (kebab'' @ u2011 @ ''case), 'title', 'durationSec'.'',
     ''   '' @ u2022 @ '' 'elements[]' ordered by on'' @ u2011 @
       ''screen appearance. Each element:'',
     ''     '' @ u2011 @
       '' 'kind' (heading | paragraph | bulletList | image | videoClip '' @
       ''| chart | code | shape)'',
     ''     '' @ u2011 @ '' 'content' or 'src'' @ [CHR 0x27],
     ''     '' @ u2011 @ '' 'animationIn' / 'animationOut' (fade, wipe'' @ u2011 @
       ''right, scale'' @ u2011 @ ''up, spring'' @ u2011 @ ''fly'' @ u2011 @ ''in, etc.)'',
     ''     '' @ u2011 @ '' 'startSec', optional 'endSec'.'',
     ''   '' @ u2022 @ '' 'narration' '' @ u2013 @ '' conversational, 1st'' @ u2011 @
       ''person plural, '' @ u2264 @ u202F @ ''80'' @ u202F @ ''words.'',
     ''   '' @ u2022 @ '' 'subtitles' '' @ u2013 @
       '' identical to narration or condensed captions.'',
     ''   '' @ u2022 @ '' 'audioTracks': backgroundMusic (file name or '' @ u201C @
       ''none'' @ u201D @ ''); sfx[] aligned to seconds.'',
     ''   '' @ u2022 @ '' 'transitionToNext' '' @ u2013 @ '' cut | cross'' @ u2011 @
       ''fade | push'' @ u2011 @ ''left | custom.'',
     ''   '' @ u2022 @ '' 'directorNotes' '' @ u2013 @ '' free'' @ u2011 @
       ''text with: pacing hints, visual mood, colour cues, relationship '' @
       ''to previous/next slide, which element deserves emphasis, suggested '' @
       ''FPS if divergent from default, volume ducking hints, mention '' @ u201C @
       ''linger'' @ u201D @ '' or '' @ u201C @ ''skip quickly'' @ u201D @ '' as needed.'',
     [],
     ''4. Emit two artifacts with *identical* data:'',
     ''   a) 'storyboard.yaml' '' @ u2013 @ '' easy for humans; b) 'storyboard.json' '' @
       u2013 @ '' camelCase keys for machines.'',
     [],
     ''5. After the YAML & JSON blocks, output an **exec summary table** '' @
       ''listing slide id, title and durationSec to help editors spot '' @
       ''timing at a glance.'',
     [],
     ''Remember: No Remotion code '' @ u2013 @ '' just the data.'',
     [],
     ''<<<RESEARCH>>>'',
     ''<<PASTE FULL RESEARCH TEXT HERE>>'',
     ''<<<END>>>'']\<close>

definition MASTER_PROMPT :: string where
  "MASTER_PROMPT = join_with ''\<newline>'' MASTER_PROMPT_lines"

definition PLACEHOLDER :: string where
  "PLACEHOLDER = ''<<PASTE FULL RESEARCH TEXT HERE>>''"

text \<open>The prompt of \<^verbatim>\<open>main\<close>: \<^verbatim>\<open>MASTER_PROMPT.replace(PLACEHOLDER, research)\<close>.\<close>

definition compose_prompt :: "string \<Rightarrow> string" where
  "compose_prompt research = js_replace MASTER_PROMPT PLACEHOLDER research"

section \<open>The identifier of the generated component\<close>

text \<open>
  \<^verbatim>\<open>camelCase\<close> makes three replacements. The first, global one replaces every match of
  \<^verbatim>\<open>/[^a-zA-Z0-9]+(.)/\<close> by its group in upper case. At a position of the string the
  expression takes the longest run of characters that are neither letters nor digits and
  then one more character; when the run reaches the end of the string it gives characters
  back, one at a time, until the dot has a character to match.
\<close>

fun backtrack_dot :: "string \<Rightarrow> (char \<times> string) option" where
  "backtrack_dot [] = None"
| "backtrack_dot (c # cs) =
     (case backtrack_dot cs of
        Some r \<Rightarrow> Some r
      | None \<Rightarrow> if isLineTerminator c then None else Some (c, cs))"

text \<open>A match at the head of the string: the character of the group, and the text after the match.\<close>

definition match_sep :: "string \<Rightarrow> (char \<times> string) option" where
  "match_sep s =
     (case takeWhile (\<lambda>c. \<not> isAlnum c) s of
        [] \<Rightarrow> None
      | r # run \<Rightarrow>
          (case dropWhile (\<lambda>c. \<not> isAlnum c) s of
             c # rest \<Rightarrow> Some (c, rest)
           | [] \<Rightarrow> backtrack_dot run))"

function replace_seps :: "string \<Rightarrow> string" where
  "replace_seps [] = []"
| "replace_seps (c # cs) =
     (case match_sep (c # cs) of
        Some (chr, rest) \<Rightarrow> toUpperCase_char chr # replace_seps rest
      | None \<Rightarrow> c # replace_seps cs)"
  by pat_completeness auto
termination
proof (relation "measure length")
  show "wf (measure length)" by simp
next
  fix c :: char and cs :: string
  show "(cs, c # cs) \<in> measure length" by simp
next
  fix c chr :: char and cs rest :: string and m :: "char \<times> string"
  assume m: "match_sep (c # cs) = Some m" and mr: "(chr, rest) = m"
  let ?s = "c # cs"
  have bt: "length r < length xs" if "backtrack_dot xs = Some (d, r)" for xs d r
    using that by (induction xs arbitrary: d r) (auto split: option.splits if_splits)
  have len: "length (takeWhile (\<lambda>c. \<not> isAlnum c) ?s) \<le> length ?s"
    by (rule length_takeWhile_le)
  have len2: "length (dropWhile (\<lambda>c. \<not> isAlnum c) ?s) \<le> length ?s"
    by (rule length_dropWhile_le)
  have "length rest < length ?s"
  proof (cases "dropWhile (\<lambda>c. \<not> isAlnum c) ?s")
    case Nil
    from m mr obtain r0 run where tw: "takeWhile (\<lambda>c. \<not> isAlnum c) ?s = r0 # run"
      and b: "backtrack_dot run = Some (chr, rest)"
      unfolding match_sep_def Nil by (cases "takeWhile (\<lambda>c. \<not> isAlnum c) ?s") auto
    from bt[OF b] tw len show ?thesis by simp
  next
    case (Cons d rest')
    from m mr have "rest = rest'"
      unfolding match_sep_def Cons by (cases "takeWhile (\<lambda>c. \<not> isAlnum c) ?s") auto
    with len2 Cons show ?thesis by simp
  qed
  then show "(rest, c # cs) \<in> measure length" by simp
qed

text \<open>The second replacement, of \<^verbatim>\<open>/^[^a-zA-Z]*/\<close> by the empty string.\<close>

definition strip_leading_nonletters :: "string \<Rightarrow> string" where
  "strip_leading_nonletters s = dropWhile (\<lambda>c. \<not> isAlpha c) s"

text \<open>The third replacement, of \<^verbatim>\<open>/^(.)/\<close> by its upper case.\<close>

definition upper_first :: "string \<Rightarrow> string" where
  "upper_first s =
     (case s of
        [] \<Rightarrow> []
      | c # cs \<Rightarrow> if isLineTerminator c then s else toUpperCase_char c # cs)"

definition camelCase_str :: "string \<Rightarrow> string" where
  "camelCase_str s = upper_first (strip_leading_nonletters (replace_seps s))"

text \<open>
  \<^verbatim>\<open>camelCase(str)\<close> calls \<^verbatim>\<open>str.replace\<close>, which only a string has as a function.
\<close>

fun camelCase :: "jsval \<Rightarrow> error + string" where
  "camelCase (Str s) = Inr (camelCase_str s)"
| "camelCase v = Inl TypeError"

text \<open>
  An identifier of the generated TypeScript: a letter, an underscore or a dollar sign,
  followed by letters, digits, underscores and dollar signs.
\<close>

definition valid_identifier :: "string \<Rightarrow> bool" where
  "valid_identifier s =
     (case s of
        [] \<Rightarrow> False
      | c # cs \<Rightarrow> (isAlpha c \<or> c = CHR ''_'' \<or> c = CHR ''$'') \<and>
                 list_all (\<lambda>d. isAlnum d \<or> d = CHR ''_'' \<or> d = CHR ''$'') cs)"

section \<open>The response extractor\<close>

text \<open>
  \<^verbatim>\<open>([\s\S]+?)```\<close> at the head of a string: at least one character, as few as possible,
  up to the next three backquotes. The result is the group and the text after the match.
\<close>

definition lazy_body :: "string \<Rightarrow> (string \<times> string) option" where
  "lazy_body s =
     (case s of
        [] \<Rightarrow> None
      | c # cs \<Rightarrow> map_option (\<lambda>(b, a). (c # b, a)) (find_first ''```'' cs))"

text \<open>
  \<^verbatim>\<open>response.match(/```tag\n([\s\S]+?)```/)\<close>: the leftmost position at which the
  expression matches. The result is the index of the match, its group, and the text after
  the match; \<open>opn\<close> is the opening fence with its line feed.
\<close>

fun match_fence :: "string \<Rightarrow> string \<Rightarrow> (nat \<times> string \<times> string) option" where
  "match_fence opn [] = None"
| "match_fence opn (c # cs) =
     (case (if prefix opn (c # cs) then lazy_body (drop (length opn) (c # cs)) else None) of
        Some (b, a) \<Rightarrow> Some (0, b, a)
      | None \<Rightarrow> map_option (\<lambda>(i, b, a). (Suc i, b, a)) (match_fence opn cs))"

record blocks =
  yaml :: string
  json :: string
  summary :: string

definition extractBlocks :: "string \<Rightarrow> error + blocks" where
  "extractBlocks response =
     (let yamlMatch = match_fence ''```yaml\<newline>'' response;
          jsonMatch = match_fence ''```json\<newline>'' response
      in case yamlMatch of
           None \<Rightarrow> Inl NoYamlBlock
         | Some (yi, yb, ya) \<Rightarrow>
             (case jsonMatch of
                None \<Rightarrow> Inl NoJsonBlock
              | Some (ji, jb, ja) \<Rightarrow>
                  Inr \<lparr>yaml = js_trim yb, json = js_trim jb, summary = js_trim ja\<rparr>))"

section \<open>The file system, the console and the network\<close>

text \<open>
  A path names a file through its segments. \<^verbatim>\<open>path.join\<close> puts a slash between its
  non-empty arguments and then normalises the result (empty and \<^verbatim>\<open>.\<close> segments go, a
  \<^verbatim>\<open>..\<close> segment takes back the segment before it); the file system reads every path
  in the same way. The model joins with \<open>path_join\<close> and normalises in \<open>resolve\<close>, which
  every file operation applies to its path, so that two paths name the same file exactly
  when they resolve to the same segments. Paths are POSIX paths, and there are no
  symbolic links.
\<close>

type_synonym path = "bool \<times> string list"

fun split_slash :: "string \<Rightarrow> string list" where
  "split_slash [] = [[]]"
| "split_slash (c # cs) =
     (if c = CHR ''/'' then [] # split_slash cs
      else (case split_slash cs of
              [] \<Rightarrow> [[c]]
            | seg # segs \<Rightarrow> (c # seg) # segs))"

definition norm_step :: "bool \<Rightarrow> string list \<Rightarrow> string \<Rightarrow> string list" where
  "norm_step allowAboveRoot acc seg =
     (if seg = [] \<or> seg = ''.'' then acc
      else if seg = ''..'' then
        (if acc \<noteq> [] \<and> last acc \<noteq> ''..'' then butlast acc
         else if allowAboveRoot then acc @ [''..'']
         else acc)
      else acc @ [seg])"

definition resolve :: "string \<Rightarrow> path" where
  "resolve p =
     (let isAbsolute = (p \<noteq> [] \<and> hd p = CHR ''/'')
      in (isAbsolute, foldl (norm_step (\<not> isAbsolute)) [] (split_slash p)))"

definition path_join :: "string list \<Rightarrow> string" where
  "path_join args = join_with ''/'' (filter (\<lambda>a. a \<noteq> []) args)"

text \<open>The messages of \<^verbatim>\<open>console.warn\<close>; the progress messages of \<^verbatim>\<open>console.log\<close> are left out.\<close>

datatype warning =
    YamlParseFailed
  | YamlParsingDisabled
  | YamlJsonDiffer
  | DurationMismatch
  | NoMetaField

text \<open>
  What the script changes: the files and directories, the warnings printed so far, and the
  number of requests sent to the network.
\<close>

record world =
  files :: "path \<rightharpoonup> string"
  dirs :: "path set"
  warnings :: "warning list"
  net_calls :: nat

text \<open>A computation of the script: it changes the world and returns a value or throws.\<close>

type_synonym 'a io = "world \<Rightarrow> (error + 'a) \<times> world"

definition bindIO :: "'a io \<Rightarrow> ('a \<Rightarrow> 'b io) \<Rightarrow> 'b io" where
  "bindIO m f st = (case m st of (Inl e, st') \<Rightarrow> (Inl e, st') | (Inr x, st') \<Rightarrow> f x st')"

definition liftE :: "error + 'a \<Rightarrow> 'a io" where
  "liftE r st = (r, st)"

definition console_warn :: "warning \<Rightarrow> unit io" where
  "console_warn w st = (Inr (), st\<lparr>warnings := warnings st @ [w]\<rparr>)"

text \<open>
  \<^verbatim>\<open>fs.mkdirSync(p, { recursive: true })\<close> creates the directory and every missing parent;
  it fails when one of them exists as a file.
\<close>

definition mkdirSync :: "string \<Rightarrow> unit io" where
  "mkdirSync p st =
     (let (isAbsolute, segs) = resolve p;
          ds = map (\<lambda>d. (isAbsolute, d)) (prefixes segs)
      in if p = [] \<or> (\<exists>d \<in> set ds. files st d \<noteq> None) then (Inl FsError, st)
         else (Inr (), st\<lparr>dirs := dirs st \<union> set ds\<rparr>))"

text \<open>
  \<^verbatim>\<open>fs.writeFileSync(p, data)\<close> creates or replaces a file in a directory that exists; it
  fails when the path names a directory or the parent is not a directory.
\<close>

definition writeFileSync :: "string \<Rightarrow> string \<Rightarrow> unit io" where
  "writeFileSync p content st =
     (let (isAbsolute, segs) = resolve p
      in if segs = [] \<or> (isAbsolute, segs) \<in> dirs st \<or> (isAbsolute, butlast segs) \<notin> dirs st
         then (Inl FsError, st)
         else (Inr (), st\<lparr>files := (files st)(resolve p \<mapsto> content)\<rparr>))"

definition readFileSync :: "string \<Rightarrow> string io" where
  "readFileSync p st =
     (case files st (resolve p) of
        None \<Rightarrow> (Inl FsError, st)
      | Some content \<Rightarrow> (Inr content, st))"

text \<open>
  The request of \<^verbatim>\<open>callOpenAI\<close> and the response of the service. \<open>response_json\<close> is
  the body as \<^verbatim>\<open>response.json()\<close> parses it, \<open>None\<close> when it is not JSON.
\<close>

record request =
  req_url :: string
  req_method :: string
  req_content_type :: string
  req_authorization :: string
  req_model :: string
  req_role :: string
  req_content :: string
  req_temperature :: string

record response =
  response_ok :: bool
  response_status :: nat
  response_text :: string
  response_json :: "jsval option"

text \<open>
  What the script reads and does not change: its arguments (\<^verbatim>\<open>process.argv.slice(2)\<close>),
  the credential \<^verbatim>\<open>process.env.OPENAI_API_KEY\<close>, the service behind \<^verbatim>\<open>fetch\<close>
  (\<open>None\<close> when the request fails), the module \<^verbatim>\<open>js-yaml\<close> (\<open>None\<close> when it is not
  installed; its \<^verbatim>\<open>load\<close> gives \<open>None\<close> when it throws), and \<^verbatim>\<open>JSON.parse\<close>
  (\<open>Inl\<close> the message of its error).
\<close>

record env =
  argv :: "string list"
  api_key :: "string option"
  fetch :: "request \<Rightarrow> response option"
  yaml_load :: "(string \<Rightarrow> jsval option) option"
  json_parse :: "string \<Rightarrow> string + jsval"

section \<open>The argument resolver\<close>

datatype abort = Threw error | Exited nat

fun parseArgs_loop :: "string list \<Rightarrow> string option \<Rightarrow> string option \<Rightarrow> abort + (string option \<times> string option)" where
  "parseArgs_loop [] input output = Inr (input, output)"
| "parseArgs_loop [arg] input output =
     (if arg = ''--help'' \<or> arg = ''-h'' then Inl (Exited 0) else Inr (input, output))"
| "parseArgs_loop (arg # v # rest) input output =
     (if arg = ''--input'' then parseArgs_loop rest (Some v) output
      else if arg = ''--output'' then parseArgs_loop rest input (Some v)
      else if arg = ''--help'' \<or> arg = ''-h'' then Inl (Exited 0)
      else parseArgs_loop (v # rest) input output)"

definition parseArgs :: "string list \<Rightarrow> abort + (string \<times> string)" where
  "parseArgs args =
     (case parseArgs_loop args None None of
        Inl a \<Rightarrow> Inl a
      | Inr (input, output) \<Rightarrow>
          if input = None \<or> input = Some [] then Inl (Threw MissingInput)
          else if output = None \<or> output = Some [] then Inl (Threw MissingOutput)
          else Inr (the input, the output))"

section \<open>The completion client\<close>

definition callOpenAI :: "env \<Rightarrow> string \<Rightarrow> jsval io" where
  "callOpenAI e prompt st =
     (case api_key e of
        None \<Rightarrow> (Inl ApiKeyNotSet, st)
      | Some apiKey \<Rightarrow>
          if apiKey = [] then (Inl ApiKeyNotSet, st)
          else
            (let st' = st\<lparr>net_calls := net_calls st + 1\<rparr>
             in case fetch e
                  \<lparr>req_url = ''https://api.openai.com/v1/chat/completions'',
                   req_method = ''POST'',
                   req_content_type = ''application/json'',
                   req_authorization = ''Bearer '' @ apiKey,
                   req_model = ''gpt-4o'',
                   req_role = ''user'',
                   req_content = prompt,
                   req_temperature = ''0.3''\<rparr> of
                  None \<Rightarrow> (Inl FetchError, st')
                | Some r \<Rightarrow>
                    if \<not> response_ok r then (Inl (ApiError (response_status r) (response_text r)), st')
                    else
                      (case response_json r of
                         None \<Rightarrow> (Inl FetchError, st')
                       | Some j \<Rightarrow>
                           (case get_prop j ''choices'' of
                              Inl err \<Rightarrow> (Inl err, st')
                            | Inr choices \<Rightarrow>
                                (case get_index choices 0 of
                                   Inl err \<Rightarrow> (Inl err, st')
                                 | Inr choice \<Rightarrow>
                                     (case get_prop choice ''message'' of
                                        Inl err \<Rightarrow> (Inl err, st')
                                      | Inr message \<Rightarrow> (get_prop message ''content'', st')))))))"

section \<open>The validator\<close>

text \<open>
  The validator compares \<^verbatim>\<open>JSON.stringify(JSON.parse(JSON.stringify(v)))\<close> of the two
  parsed values. Serialising writes \<^verbatim>\<open>null\<close> for \<^verbatim>\<open>undefined\<close> and \<^verbatim>\<open>NaN\<close> in
  an array, and leaves out the properties of an object that are \<^verbatim>\<open>undefined\<close>; two
  values have the same serialisation exactly when they are equal after that.
\<close>

fun json_normal :: "jsval \<Rightarrow> jsval" where
  "json_normal (Arr xs) = Arr (map (\<lambda>x. if x = Undefined then Null else json_normal x) xs)"
| "json_normal (Obj kvs) =
     Obj (map (\<lambda>(k, v). (k, json_normal v)) (filter (\<lambda>(k, v). v \<noteq> Undefined) kvs))"
| "json_normal NaN = Null"
| "json_normal v = v"

text \<open>
  \<^verbatim>\<open>slides.reduce((sum, s) => sum + (s.durationSec || 0), 0)\<close>, from the left with the
  sum so far.
\<close>

fun sum_durations :: "jsval list \<Rightarrow> jsval \<Rightarrow> error + jsval" where
  "sum_durations [] acc = Inr acc"
| "sum_durations (s # ss) acc =
     (case get_prop s ''durationSec'' of
        Inl err \<Rightarrow> Inl err
      | Inr d \<Rightarrow> sum_durations ss (js_add acc (js_or d (Num 0))))"

text \<open>
  The duration check at the end of \<^verbatim>\<open>validateStoryboard\<close>: whether the warning is due.
\<close>

definition duration_mismatch :: "jsval \<Rightarrow> error + bool" where
  "duration_mismatch jsonObj =
     (case get_prop jsonObj ''meta'' of
        Inl err \<Rightarrow> Inl err
      | Inr meta \<Rightarrow>
          if \<not> truthy meta then Inr False
          else
            (case get_prop jsonObj ''slides'' of
               Inl err \<Rightarrow> Inl err
             | Inr (Arr slides) \<Rightarrow>
                 (case sum_durations slides (Num 0) of
                    Inl err \<Rightarrow> Inl err
                  | Inr slideTotal \<Rightarrow>
                      (case get_prop meta ''totalDurationSec'' of
                         Inl err \<Rightarrow> Inl err
                       | Inr declared \<Rightarrow> Inr (truthy declared \<and> \<not> js_strict_eq slideTotal declared)))
             | Inr other \<Rightarrow> Inr False))"

definition load_yaml :: "env \<Rightarrow> string \<Rightarrow> jsval io" where
  "load_yaml e yamlStr =
     (case yaml_load e of
        None \<Rightarrow> bindIO (console_warn YamlParsingDisabled) (\<lambda>u. liftE (Inr Null))
      | Some load \<Rightarrow>
          (case load yamlStr of
             None \<Rightarrow> bindIO (console_warn YamlParseFailed) (\<lambda>u. liftE (Inr Null))
           | Some v \<Rightarrow> liftE (Inr v)))"

definition validateStoryboard :: "env \<Rightarrow> string \<Rightarrow> string \<Rightarrow> (jsval \<times> jsval) io" where
  "validateStoryboard e yamlStr jsonStr =
     bindIO (load_yaml e yamlStr) (\<lambda>yamlObj.
     bindIO (liftE (case json_parse e jsonStr of
                      Inl msg \<Rightarrow> Inl (InvalidJson msg)
                    | Inr v \<Rightarrow> Inr v)) (\<lambda>jsonObj.
     bindIO (if truthy yamlObj \<and> json_normal yamlObj \<noteq> json_normal jsonObj
             then console_warn YamlJsonDiffer else liftE (Inr ())) (\<lambda>u.
     bindIO (liftE (duration_mismatch jsonObj)) (\<lambda>mismatch.
     bindIO (if mismatch then console_warn DurationMismatch else liftE (Inr ())) (\<lambda>u.
     liftE (Inr (yamlObj, jsonObj)))))))"

section \<open>The artifact emitter\<close>

text \<open>The text of \<^verbatim>\<open>Video.tsx\<close>, as \<^verbatim>\<open>writeVideoTsx\<close> builds it.\<close>

definition video_tsx :: "string \<Rightarrow> jsval \<Rightarrow> jsval \<Rightarrow> jsval \<Rightarrow> jsval \<Rightarrow> string" where
  \<open>video_tsx ident totalFrames fps width height =
    concat
     [''import React from 'react';\<newline>'',
      ''import { Composition, Sequence, Audio, AbsoluteFill } from 'remotion';\<newline>'',
      ''import storyboard from './storyboard.json';\<newline>\<newline>'',
      ''// This file was auto'' @ u2011 @ ''generated by storyboard_tool.js.\<newline>'',
      ''// It defines a Remotion Composition whose id is based on storyboard.meta.videoId.\<newline>'',
      ''// Each slide becomes a Sequence; rendering of individual elements '' @
        ''is left as TODOs.\<newline>\<newline>'',
      ''const Slide: React.FC<{ slide: any }> = ({ slide }) => {\<newline>'',
      ''  // TODO: Render slide elements here. You can map slide.elements '' @
        ''to your own\<newline>'',
      ''  // custom components, apply animations based on startSec/endSec, '' @
        ''and insert\<newline>'',
      ''  // Audio components for narration, backgroundMusic and sfx.\<newline>'',
      ''  return (\<newline>'',
      ''    <AbsoluteFill style={{ backgroundColor: 'white', color: '' @ [CHR 0x27] @
        ''black', justifyContent: 'center', alignItems: 'center' }}>\<newline>'',
      ''      {/* Example placeholder: show slide title centered on '' @
        ''screen */}\<newline>'',
      ''      <h1>{slide.title}</h1>\<newline>'',
      ''    </AbsoluteFill>\<newline>'',
      ''  );\<newline>'',
      ''};\<newline>\<newline>'',
      ''const MainVideo: React.FC = () => {\<newline>'',
      ''  let currentFrame = 0;\<newline>'',
      ''  const sequences = storyboard.slides.map((slide: any, index: '' @
        ''number) => {\<newline>'',
      ''    const durationFrames = Math.round(slide.durationSec * storyboard.meta.defaultFps);\<newline>'',
      ''    const from = currentFrame;\<newline>'',
      ''    currentFrame += durationFrames;\<newline>'',
      ''    return (\<newline>'',
      ''      <Sequence key={slide.id} from={from} durationInFrames={durationFrames}>\<newline>'',
      ''        <Slide slide={slide} />\<newline>'',
      ''      </Sequence>\<newline>'',
      ''    );\<newline>'',
      ''  });\<newline>'',
      ''  return (\<newline>'',
      ''    <>\<newline>'',
      ''      {sequences}\<newline>'',
      ''    </>\<newline>'',
      ''  );\<newline>'',
      ''};\<newline>\<newline>'',
      ''export const '' @ ident @ '': React.FC = () => {\<newline>'',
      ''  return (\<newline>'',
      ''    <Composition\<newline>'',
      ''      id={storyboard.meta.videoId}\<newline>'',
      ''      component={MainVideo}\<newline>'',
      ''      durationInFrames={'' @ js_to_string totalFrames @ ''}\<newline>'',
      ''      fps={'' @ js_to_string fps @ ''}\<newline>'',
      ''      width={'' @ js_to_string width @ ''}\<newline>'',
      ''      height={'' @ js_to_string height @ ''}\<newline>'',
      ''    />\<newline>'',
      ''  );\<newline>'',
      ''};\<newline>\<newline>'',
      ''export default '' @ ident @ '';\<newline>'']\<close>

definition writeVideoTsx :: "jsval \<Rightarrow> string \<Rightarrow> unit io" where
  "writeVideoTsx storyboard outDir =
     bindIO (liftE (get_prop storyboard ''meta'')) (\<lambda>meta.
       if \<not> truthy meta then console_warn NoMetaField
       else
         bindIO (liftE (get_prop meta ''defaultFps'')) (\<lambda>defaultFps.
         bindIO (liftE (get_prop meta ''videoId'')) (\<lambda>metaVideoId.
         bindIO (liftE (get_prop meta ''defaultResolution'')) (\<lambda>defaultResolution.
         bindIO (liftE (get_prop meta ''totalDurationSec'')) (\<lambda>totalDurationSec.
           (let fps = js_or defaultFps (Num 30);
                videoId = js_or metaVideoId (Str ''generated-video'');
                width = js_or (get_prop_opt defaultResolution ''width'') (Num 1920);
                height = js_or (get_prop_opt defaultResolution ''height'') (Num 1080);
                totalFrames = js_mul (js_or totalDurationSec (Num 0)) fps
            in bindIO (liftE (camelCase videoId)) (\<lambda>ident.
                 writeFileSync (path_join [outDir, ''Video.tsx''])
                   (video_tsx ident totalFrames fps width height))))))))"

text \<open>
  The loop of \<^verbatim>\<open>createVoiceoverPlaceholders\<close>: an empty file
  \<^verbatim>\<open>${slide.id}.mp3\<close> for every slide.
\<close>

fun write_placeholders :: "string \<Rightarrow> jsval list \<Rightarrow> unit io" where
  "write_placeholders voiceDir [] = liftE (Inr ())"
| "write_placeholders voiceDir (slide # slides) =
     bindIO (liftE (get_prop slide ''id'')) (\<lambda>slide_id.
     bindIO (writeFileSync (path_join [voiceDir, js_to_string slide_id @ ''.mp3'']) []) (\<lambda>u.
     write_placeholders voiceDir slides))"

text \<open>
  \<^verbatim>\<open>storyboard.slides.forEach\<close> is a function only when \<^verbatim>\<open>slides\<close> is an array; on
  anything else the call throws.
\<close>

definition createVoiceoverPlaceholders :: "jsval \<Rightarrow> string \<Rightarrow> unit io" where
  "createVoiceoverPlaceholders storyboard outDir =
     (let voiceDir = path_join [outDir, ''public'', ''voiceovers'']
      in bindIO (mkdirSync voiceDir) (\<lambda>u.
         bindIO (liftE (get_prop storyboard ''slides'')) (\<lambda>slides.
           case slides of
             Arr xs \<Rightarrow> write_placeholders voiceDir xs
           | other \<Rightarrow> liftE (Inl TypeError))))"

text \<open>The last step of \<^verbatim>\<open>main\<close>: the summary, when there is one.\<close>

definition write_summary :: "string \<Rightarrow> string \<Rightarrow> unit io" where
  "write_summary output summary_text =
     (if summary_text \<noteq> []
      then writeFileSync (path_join [output, ''EXEC_SUMMARY.txt'']) (js_trim summary_text)
      else liftE (Inr ()))"

section \<open>The pipeline\<close>

text \<open>
  \<^verbatim>\<open>main\<close> from the reply of the service on (lines 360 to 379). \<^verbatim>\<open>extractBlocks\<close>
  calls \<^verbatim>\<open>response.match\<close>, which only a string has.
\<close>

definition process_reply :: "env \<Rightarrow> string \<Rightarrow> jsval \<Rightarrow> unit io" where
  "process_reply e output responseText =
     (case responseText of
        Str reply \<Rightarrow>
          bindIO (liftE (extractBlocks reply)) (\<lambda>b.
          bindIO (writeFileSync (path_join [output, ''storyboard.yaml'']) (yaml b)) (\<lambda>u.
          bindIO (writeFileSync (path_join [output, ''storyboard.json'']) (json b)) (\<lambda>u.
          bindIO (validateStoryboard e (yaml b) (json b)) (\<lambda>(yamlObj, jsonObj).
          bindIO (writeVideoTsx jsonObj output) (\<lambda>u.
          bindIO (createVoiceoverPlaceholders jsonObj output) (\<lambda>u.
          write_summary output (summary b)))))))
      | other \<Rightarrow> liftE (Inl TypeError))"

definition pipeline :: "env \<Rightarrow> string \<Rightarrow> string \<Rightarrow> unit io" where
  "pipeline e input output =
     bindIO (mkdirSync output) (\<lambda>u.
     bindIO (readFileSync input) (\<lambda>research.
     bindIO (callOpenAI e (compose_prompt research)) (\<lambda>responseText.
     process_reply e output responseText)))"

definition main :: "env \<Rightarrow> world \<Rightarrow> (abort + unit) \<times> world" where
  "main e st =
     (case parseArgs (argv e) of
        Inl a \<Rightarrow> (Inl a, st)
      | Inr (input, output) \<Rightarrow>
          (case pipeline e input output st of
             (Inl err, st') \<Rightarrow> (Inl (Threw err), st')
           | (Inr u, st') \<Rightarrow> (Inr u, st')))"

text \<open>
  The artifact emitter of the specification (section 4.5) is the part of \<^verbatim>\<open>main\<close> that
  writes: the two serialisations, the composition stub, the placeholder audio files and
  the summary, in the order of \<^verbatim>\<open>main\<close>.
\<close>

definition emit_artifacts :: "string \<Rightarrow> blocks \<Rightarrow> jsval \<Rightarrow> unit io" where
  "emit_artifacts output b jsonObj =
     bindIO (writeFileSync (path_join [output, ''storyboard.yaml'']) (yaml b)) (\<lambda>u.
     bindIO (writeFileSync (path_join [output, ''storyboard.json'']) (json b)) (\<lambda>u.
     bindIO (writeVideoTsx jsonObj output) (\<lambda>u.
     bindIO (createVoiceoverPlaceholders jsonObj output) (\<lambda>u.
     write_summary output (summary b)))))"

section \<open>The emitter as a list of steps\<close>

text \<open>
  For the proofs the writing part of the script is also described as a list of steps: the
  files it writes, the directory it creates, its warnings, and the point at which it
  throws. The lists are computed from the same inputs as the functions above, and the
  functions are proved equal to running their lists. The section ends with the inputs of
  the examples.
\<close>

definition demo_world :: world where
  "demo_world =
     \<lparr>files = [(False, [''research.md'']) \<mapsto> ''Three ways AI helps.''],
      dirs = {(False, []), (True, [])},
      warnings = [],
      net_calls = 0\<rparr>"

definition demo_reply_bad_json :: string where
  \<open>demo_reply_bad_json =
     ''```yaml\<newline>meta: {}\<newline>```\<newline>```json\<newline>{"meta": \<newline>```\<newline>''\<close>

definition service :: "string \<Rightarrow> request \<Rightarrow> response option" where
  "service reply req =
     Some \<lparr>response_ok = True, response_status = 200, response_text = [],
           response_json = Some (Obj [(''choices'', Arr [Obj [(''message'', Obj [(''content'', Str reply)])]])])\<rparr>"

definition demo_env_bad_json :: env where
  "demo_env_bad_json =
     \<lparr>argv = [''--input'', ''research.md'', ''--output'', ''out''],
      api_key = Some ''sk-demo'',
      fetch = service demo_reply_bad_json,
      yaml_load = None,
      json_parse = (\<lambda>s. Inl ''Unexpected end of JSON input'')\<rparr>"

text \<open>The last character of the last segment tells the files of the script apart.\<close>

definition last_char :: "path \<Rightarrow> char" where
  "last_char k = last (last (snd k))"

definition plain_name :: "string \<Rightarrow> bool" where
  "plain_name f = (f \<noteq> [] \<and> f \<noteq> ''.'' \<and> f \<noteq> ''..'' \<and> CHR ''/'' \<notin> set f)"

definition parent :: "path \<Rightarrow> path" where
  "parent k = (fst k, butlast (snd k))"

definition dirs_of :: "string \<Rightarrow> path set" where
  "dirs_of p = (\<lambda>d. (fst (resolve p), d)) ` set (prefixes (snd (resolve p)))"

datatype step = Write string string | Mkdir string | Warn warning | Fail error

fun run_step :: "step \<Rightarrow> unit io" where
  "run_step (Write p c) = writeFileSync p c"
| "run_step (Mkdir p) = mkdirSync p"
| "run_step (Warn w) = console_warn w"
| "run_step (Fail e) = liftE (Inl e)"

fun run_script :: "step list \<Rightarrow> unit io" where
  "run_script [] = liftE (Inr ())"
| "run_script (s # ss) = bindIO (run_step s) (\<lambda>u. run_script ss)"

fun step_writes :: "step \<Rightarrow> (path \<rightharpoonup> string)" where
  "step_writes (Write p c) = [resolve p \<mapsto> c]"
| "step_writes s = Map.empty"

fun writes :: "step list \<Rightarrow> world \<Rightarrow> (path \<rightharpoonup> string)" where
  "writes [] st = Map.empty"
| "writes (s # ss) st =
     (case run_step s st of
        (Inl e, st') \<Rightarrow> Map.empty
      | (Inr u, st') \<Rightarrow> step_writes s ++ writes ss st')"

definition wf_world :: "world \<Rightarrow> bool" where
  "wf_world st = (\<forall>k. k \<in> dirs st \<longrightarrow> files st k = None)"

definition voice_dir :: "string \<Rightarrow> string" where
  "voice_dir outDir = path_join [outDir, ''public'', ''voiceovers'']"

definition placeholder_path :: "string \<Rightarrow> jsval \<Rightarrow> string" where
  "placeholder_path outDir slide =
     path_join [voice_dir outDir, js_to_string (get_prop_opt slide ''id'') @ ''.mp3'']"

definition slide_step :: "string \<Rightarrow> jsval \<Rightarrow> step" where
  "slide_step outDir slide =
     (case get_prop slide ''id'' of
        Inl e \<Rightarrow> Fail e
      | Inr v \<Rightarrow> Write (placeholder_path outDir slide) [])"

definition video_script :: "jsval \<Rightarrow> string \<Rightarrow> step list" where
  "video_script storyboard outDir =
     (case get_prop storyboard ''meta'' of
        Inl e \<Rightarrow> [Fail e]
      | Inr meta \<Rightarrow>
          if \<not> truthy meta then [Warn NoMetaField]
          else
            (let fps = js_or (get_prop_opt meta ''defaultFps'') (Num 30);
                 videoId = js_or (get_prop_opt meta ''videoId'') (Str ''generated-video'');
                 width = js_or (get_prop_opt (get_prop_opt meta ''defaultResolution'') ''width'') (Num 1920);
                 height = js_or (get_prop_opt (get_prop_opt meta ''defaultResolution'') ''height'') (Num 1080);
                 totalFrames = js_mul (js_or (get_prop_opt meta ''totalDurationSec'') (Num 0)) fps
             in case camelCase videoId of
                  Inl e \<Rightarrow> [Fail e]
                | Inr ident \<Rightarrow>
                    [Write (path_join [outDir, ''Video.tsx''])
                       (video_tsx ident totalFrames fps width height)]))"

definition voice_script :: "jsval \<Rightarrow> string \<Rightarrow> step list" where
  "voice_script storyboard outDir =
     Mkdir (voice_dir outDir) #
     (case get_prop storyboard ''slides'' of
        Inl e \<Rightarrow> [Fail e]
      | Inr (Arr xs) \<Rightarrow> map (slide_step outDir) xs
      | Inr other \<Rightarrow> [Fail TypeError])"

definition summary_script :: "string \<Rightarrow> string \<Rightarrow> step list" where
  "summary_script outDir summary_text =
     (if summary_text \<noteq> []
      then [Write (path_join [outDir, ''EXEC_SUMMARY.txt'']) (js_trim summary_text)]
      else [])"

definition tail_script :: "string \<Rightarrow> string \<Rightarrow> jsval \<Rightarrow> step list" where
  "tail_script outDir summary_text jsonObj =
     video_script jsonObj outDir @ voice_script jsonObj outDir @ summary_script outDir summary_text"

definition emit_script :: "string \<Rightarrow> blocks \<Rightarrow> jsval \<Rightarrow> step list" where
  "emit_script outDir b jsonObj =
     [Write (path_join [outDir, ''storyboard.yaml'']) (yaml b),
      Write (path_join [outDir, ''storyboard.json'']) (json b)]
     @ tail_script outDir (summary b) jsonObj"

text \<open>
  The examples: a reply of the service with a YAML and a JSON block and a summary table, and
  an environment in which the service gives this reply and \<^verbatim>\<open>JSON.parse\<close> reads the JSON
  block as the given value.
\<close>

definition demo_reply :: "string \<Rightarrow> string \<Rightarrow> string" where
  \<open>demo_reply y j =
     ''```yaml\<newline>'' @ y @ ''\<newline>```\<newline>```json\<newline>'' @ j @
     ''\<newline>```\<newline>| id | durationSec |\<newline>''\<close>

definition demo_env :: "string \<Rightarrow> string \<Rightarrow> jsval \<Rightarrow> env" where
  "demo_env y j parsed =
     \<lparr>argv = [''--input'', ''research.md'', ''--output'', ''out''],
      api_key = Some ''sk-demo'',
      fetch = service (demo_reply y j),
      yaml_load = None,
      json_parse = (\<lambda>s. if s = j then Inr parsed else Inl ''Unexpected token'')\<rparr>"

definition yaml_full :: string where
  \<open>yaml_full =
     ''meta:\<newline>  videoId: 3-ways-ai-helps\<newline>  totalDurationSec: '' @
     ''50\<newline>slides:\<newline>  - id: hook\<newline>    durationSec: 20\<newline> '' @
     '' - id: body\<newline>    durationSec: 25\<newline>  - id: end\<newline> '' @
     ''   durationSec: 15''\<close>

definition json_full :: string where
  \<open>json_full =
     ''{"meta": {"videoId": "3-ways-ai-helps", "totalDurationSec": 50}, "slides": '' @
     ''[{"id": "hook", "durationSec": 20}, {"id": "body", "durationSec": 25},'' @
     '' {"id": "end", "durationSec": 15}]}''\<close>







definition demo_slides :: "jsval list" where
  "demo_slides =
     [Obj [(''id'', Str ''hook''), (''durationSec'', Num 20)],
      Obj [(''id'', Str ''body''), (''durationSec'', Num 25)],
      Obj [(''id'', Str ''end''), (''durationSec'', Num 15)]]"

definition parsed_full :: jsval where
  "parsed_full =
     Obj [(''meta'', Obj [(''videoId'', Str ''3-ways-ai-helps''), (''totalDurationSec'', Num 50)]),
          (''slides'', Arr demo_slides)]"




definition demo_started :: world where
  "demo_started = demo_world\<lparr>dirs := {(False, []), (True, []), (False, [''out''])}, net_calls := 1\<rparr>"

text \<open>The state once both serialisations are written.\<close>

definition serialized :: "string \<Rightarrow> blocks \<Rightarrow> world \<Rightarrow> world" where
  "serialized outDir b st =
     st\<lparr>files := (files st)
          (resolve (path_join [outDir, ''storyboard.yaml'']) \<mapsto> yaml b,
           resolve (path_join [outDir, ''storyboard.json'']) \<mapsto> json b)\<rparr>"

definition demo_env_no_key :: env where
  "demo_env_no_key = (demo_env yaml_full json_full parsed_full)\<lparr>api_key := None\<rparr>"

definition demo_reply_no_json :: string where
  \<open>demo_reply_no_json = ''```yaml\<newline>meta: {}\<newline>```\<newline>The JSON will follow later.''\<close>


text \<open>The file of a slide's placeholder, and the ids for which every slide has a file of its own.\<close>

definition placeholder_file :: "string \<Rightarrow> jsval \<Rightarrow> path" where
  "placeholder_file outDir slide = resolve (placeholder_path outDir slide)"

fun plain_id :: "jsval \<Rightarrow> bool" where
  "plain_id (Str i) = (CHR ''/'' \<notin> set i)"
| "plain_id v = False"

definition plain_distinct_ids :: "jsval list \<Rightarrow> bool" where
  "plain_distinct_ids slides =
     (list_all (\<lambda>s. plain_id (get_prop_opt s ''id'')) slides
      \<and> distinct (map (\<lambda>s. get_prop_opt s ''id'') slides))"

definition parsed_dup :: jsval where
  "parsed_dup = Obj [(''slides'', Arr [Obj [(''id'', Str ''hook'')], Obj [(''id'', Str ''hook'')]])]"

definition blocks_dup :: blocks where
  \<open>blocks_dup =
     \<lparr>yaml = ''slides:\<newline>  - id: hook\<newline>  - id: hook'',
      json = ''{"slides": [{"id": "hook"}, {"id": "hook"}]}'',
      summary = []\<rparr>\<close>

definition blocks_full :: blocks where
  "blocks_full = \<lparr>yaml = yaml_full, json = json_full, summary = ''| id | durationSec |''\<rparr>"

text \<open>The template before and after its placeholder.\<close>

definition master_prefix :: string where
  "master_prefix = join_with ''\<newline>'' (take 27 MASTER_PROMPT_lines) @ ''\<newline>''"

definition master_suffix :: string where
  "master_suffix = ''\<newline><<<END>>>''"


section \<open>Lemmas\<close>

lemma sublist_concat_member: "x \<in> set xs \<Longrightarrow> sublist x (concat xs)"
proof -
  assume "x \<in> set xs"
  then obtain as bs where "xs = as @ x # bs"
    by (auto simp: in_set_conv_decomp)
  then have "concat xs = concat as @ x @ concat bs"
    by simp
  then show ?thesis
    unfolding sublist_def by blast
qed

lemma camelCase_3_ways: "camelCase_str ''3-ways-ai-helps'' = ''WaysAiHelps''"
  by (simp add: camelCase_str_def upper_first_def strip_leading_nonletters_def match_sep_def
      isAlnum_def isAlpha_def isDigit_def toUpperCase_char_def isLineTerminator_def)

lemma video_tsx_export:
  "sublist (''export const '' @ ident @ '': React.FC'') (video_tsx ident tf fps w h)"
proof -
  let ?line = "''export const '' @ ident @ '': React.FC = () => {\<newline>''"
  have m: "sublist ?line (video_tsx ident tf fps w h)"
    unfolding video_tsx_def by (rule sublist_concat_member) simp
  have "?line = [] @ (''export const '' @ ident @ '': React.FC'') @ '' = () => {\<newline>''"
    by simp
  then have "sublist (''export const '' @ ident @ '': React.FC'') ?line"
    unfolding sublist_def by blast
  with m show ?thesis
    by (rule sublist_order.order_trans[rotated])
qed

lemma bindIO_Inl [simp]: "m st = (Inl e, st') \<Longrightarrow> bindIO m f st = (Inl e, st')"
  by (simp add: bindIO_def)

lemma bindIO_Inr [simp]: "m st = (Inr x, st') \<Longrightarrow> bindIO m f st = f x st'"
  by (simp add: bindIO_def)

lemma bindIO_liftE_Inl [simp]: "bindIO (liftE (Inl e)) f st = (Inl e, st)"
  by (simp add: bindIO_def liftE_def)

lemma bindIO_liftE_Inr [simp]: "bindIO (liftE (Inr x)) f st = f x st"
  by (simp add: bindIO_def liftE_def)

lemma mkdirSync_net_calls: "net_calls (snd (mkdirSync p st)) = net_calls st"
  by (simp add: mkdirSync_def Let_def split: prod.splits)

lemma mkdirSync_files: "files (snd (mkdirSync p st)) = files st"
  by (simp add: mkdirSync_def Let_def split: prod.splits)

lemma readFileSync_world: "snd (readFileSync p st) = st"
  by (simp add: readFileSync_def split: option.splits)

lemma callOpenAI_no_key: "api_key e = None \<Longrightarrow> callOpenAI e prompt st = (Inl ApiKeyNotSet, st)"
  by (simp add: callOpenAI_def)

lemma pipeline_no_key:
  assumes "api_key e = None"
  shows "\<exists>err st'. pipeline e inp out st = (Inl err, st') \<and> net_calls st' = net_calls st"
proof (cases "mkdirSync out st")
  case (Pair r1 st1)
  have n1: "net_calls st1 = net_calls st"
    using mkdirSync_net_calls [of out st] Pair by simp
  show ?thesis
  proof (cases r1)
    case (Inl err)
    with Pair n1 show ?thesis by (simp add: pipeline_def)
  next
    case (Inr u)
    show ?thesis
    proof (cases "readFileSync inp st1")
      case (Pair r2 st2)
      have s2: "st2 = st1" using readFileSync_world [of inp st1] Pair by simp
      show ?thesis
      proof (cases r2)
        case (Inl err)
        with Pair \<open>mkdirSync out st = (r1, st1)\<close> Inr n1 s2 show ?thesis
          by (simp add: pipeline_def)
      next
        case (Inr research)
        with Pair \<open>mkdirSync out st = (r1, st1)\<close> \<open>r1 = Inr u\<close> n1 s2 assms show ?thesis
          by (simp add: pipeline_def callOpenAI_no_key)
      qed
    qed
  qed
qed


lemma find_first_None_iff: "find_first pat s = None \<longleftrightarrow> \<not> sublist pat s"
proof (induction s)
  case Nil
  then show ?case by simp
next
  case (Cons c cs)
  then show ?case by (auto simp: sublist_Cons_right)
qed


lemma lazy_body_None_iff:
  "lazy_body s = None \<longleftrightarrow> \<not> (\<exists>b a. s = b @ ''```'' @ a \<and> b \<noteq> [])"
proof (cases s)
  case Nil
  then show ?thesis by (simp add: lazy_body_def)
next
  case (Cons c cs)
  have "(\<exists>b a. c # cs = b @ ''```'' @ a \<and> b \<noteq> []) \<longleftrightarrow> sublist ''```'' cs"
  proof
    assume "\<exists>b a. c # cs = b @ ''```'' @ a \<and> b \<noteq> []"
    then obtain b a where e: "c # cs = b @ ''```'' @ a" and "b \<noteq> []" by blast
    then obtain b' where "b = c # b'" by (cases b) auto
    with e have "cs = b' @ ''```'' @ a" by simp
    then show "sublist ''```'' cs" unfolding sublist_def by blast
  next
    assume "sublist ''```'' cs"
    then obtain p q where "cs = p @ ''```'' @ q" unfolding sublist_def by blast
    then have "c # cs = (c # p) @ ''```'' @ q \<and> c # p \<noteq> []" by simp
    then show "\<exists>b a. c # cs = b @ ''```'' @ a \<and> b \<noteq> []" by blast
  qed
  with Cons show ?thesis by (simp add: lazy_body_def find_first_None_iff)
qed


lemma match_fence_None_iff:
  "match_fence opn s = None \<longleftrightarrow> \<not> (\<exists>pre b post. s = pre @ opn @ b @ ''```'' @ post \<and> b \<noteq> [])"
proof (induction s)
  case Nil
  then show ?case by simp
next
  case (Cons c cs)
  let ?here = "if prefix opn (c # cs) then lazy_body (drop (length opn) (c # cs)) else None"
  have here: "?here \<noteq> None \<longleftrightarrow> (\<exists>b post. c # cs = opn @ b @ ''```'' @ post \<and> b \<noteq> [])"
  proof
    assume "?here \<noteq> None"
    then have p: "prefix opn (c # cs)" and l: "lazy_body (drop (length opn) (c # cs)) \<noteq> None"
      by (auto split: if_splits)
    from p obtain r where r: "c # cs = opn @ r" by (auto simp: prefix_def)
    with l have "lazy_body r \<noteq> None" by simp
    then obtain b a where "r = b @ ''```'' @ a" "b \<noteq> []" by (auto simp: lazy_body_None_iff)
    with r show "\<exists>b post. c # cs = opn @ b @ ''```'' @ post \<and> b \<noteq> []" by blast
  next
    assume "\<exists>b post. c # cs = opn @ b @ ''```'' @ post \<and> b \<noteq> []"
    then obtain b post where e: "c # cs = opn @ b @ ''```'' @ post" and ne: "b \<noteq> []" by blast
    then have "prefix opn (c # cs)" by (simp add: prefix_def)
    moreover from e have "drop (length opn) (c # cs) = b @ ''```'' @ post" by simp
    moreover from ne have "lazy_body (b @ ''```'' @ post) \<noteq> None"
      unfolding lazy_body_None_iff by blast
    ultimately show "?here \<noteq> None" by simp
  qed
  have step: "(\<exists>pre b post. c # cs = pre @ opn @ b @ ''```'' @ post \<and> b \<noteq> []) \<longleftrightarrow>
      (\<exists>b post. c # cs = opn @ b @ ''```'' @ post \<and> b \<noteq> []) \<or>
      (\<exists>pre b post. cs = pre @ opn @ b @ ''```'' @ post \<and> b \<noteq> [])"
  proof
    assume "\<exists>pre b post. c # cs = pre @ opn @ b @ ''```'' @ post \<and> b \<noteq> []"
    then obtain pre b post where e: "c # cs = pre @ opn @ b @ ''```'' @ post" and ne: "b \<noteq> []"
      by blast
    show "(\<exists>b post. c # cs = opn @ b @ ''```'' @ post \<and> b \<noteq> []) \<or>
      (\<exists>pre b post. cs = pre @ opn @ b @ ''```'' @ post \<and> b \<noteq> [])"
    proof (cases pre)
      case Nil
      with e ne show ?thesis by auto
    next
      case (Cons p pre')
      with e have "cs = pre' @ opn @ b @ ''```'' @ post" by simp
      with ne show ?thesis by blast
    qed
  next
    assume "(\<exists>b post. c # cs = opn @ b @ ''```'' @ post \<and> b \<noteq> []) \<or>
      (\<exists>pre b post. cs = pre @ opn @ b @ ''```'' @ post \<and> b \<noteq> [])"
    then show "\<exists>pre b post. c # cs = pre @ opn @ b @ ''```'' @ post \<and> b \<noteq> []"
    proof
      assume "\<exists>b post. c # cs = opn @ b @ ''```'' @ post \<and> b \<noteq> []"
      then obtain b post where "c # cs = [] @ opn @ b @ ''```'' @ post \<and> b \<noteq> []" by auto
      then show ?thesis by blast
    next
      assume "\<exists>pre b post. cs = pre @ opn @ b @ ''```'' @ post \<and> b \<noteq> []"
      then obtain pre b post where "cs = pre @ opn @ b @ ''```'' @ post" "b \<noteq> []" by blast
      then have "c # cs = (c # pre) @ opn @ b @ ''```'' @ post \<and> b \<noteq> []" by simp
      then show ?thesis by blast
    qed
  qed
  show ?case
  proof (cases ?here)
    case None
    then have "match_fence opn (c # cs) = None \<longleftrightarrow> match_fence opn cs = None" by simp
    with Cons.IH here None step show ?thesis by simp
  next
    case (Some ba)
    then have "match_fence opn (c # cs) \<noteq> None" by (simp split: prod.splits)
    with here Some step show ?thesis by simp
  qed
qed

lemma split_slash_nonempty [simp]: "split_slash p \<noteq> []"
  by (induction p) (auto split: list.splits)

lemma split_slash_last:
  "p \<noteq> [] \<Longrightarrow> last p \<noteq> CHR ''/'' \<Longrightarrow>
     last (split_slash p) \<noteq> [] \<and> last (last (split_slash p)) = last p"
proof (induction p)
  case Nil
  then show ?case by simp
next
  case (Cons c cs)
  show ?case
  proof (cases "cs = []")
    case True
    with Cons.prems show ?thesis by simp
  next
    case False
    with Cons.prems have "last cs \<noteq> CHR ''/''" by simp
    with Cons.IH False have ih: "last (split_slash cs) \<noteq> []" "last (last (split_slash cs)) = last cs"
      by simp_all
    obtain seg segs where s: "split_slash cs = seg # segs"
      by (cases "split_slash cs") simp_all
    with ih False show ?thesis
      by (cases "segs = []") auto
  qed
qed

lemma split_slash_append:
  "split_slash (a @ CHR ''/'' # b) = split_slash a @ split_slash b"
proof (induction a)
  case Nil
  then show ?case by simp
next
  case (Cons c a)
  obtain seg segs where s: "split_slash a = seg # segs"
    by (cases "split_slash a") simp_all
  with Cons show ?case by simp
qed

lemma split_slash_plain: "CHR ''/'' \<notin> set f \<Longrightarrow> split_slash f = [f]"
  by (induction f) auto

lemma foldl_norm_step_snoc:
  "seg \<noteq> [] \<Longrightarrow> seg \<noteq> ''.'' \<Longrightarrow> seg \<noteq> ''..'' \<Longrightarrow>
     foldl (norm_step a) acc (xs @ [seg]) = foldl (norm_step a) acc xs @ [seg]"
  by (simp add: norm_step_def)

lemma foldl_norm_step_Nil_seg: "foldl (norm_step a) acc (xs @ [[]]) = foldl (norm_step a) acc xs"
  by (simp add: norm_step_def)

lemma resolve_last_char:
  assumes "p \<noteq> []" "last p \<noteq> CHR ''/''" "last p \<noteq> CHR ''.''"
  shows "snd (resolve p) \<noteq> [] \<and> last (last (snd (resolve p))) = last p"
proof -
  let ?seg = "last (split_slash p)"
  from split_slash_last [OF assms(1,2)] have seg: "?seg \<noteq> []" "last ?seg = last p"
    by simp_all
  with assms(3) have "?seg \<noteq> ''.''" "?seg \<noteq> ''..''" by auto
  moreover have "split_slash p = butlast (split_slash p) @ [?seg]" by simp
  ultimately have "foldl (norm_step a) [] (split_slash p)
      = foldl (norm_step a) [] (butlast (split_slash p)) @ [?seg]" for a
    using seg(1) foldl_norm_step_snoc by metis
  with seg show ?thesis by (simp add: resolve_def Let_def)
qed

lemma path_join2: "path_join [d, f] = (if d = [] then f else if f = [] then d else d @ CHR ''/'' # f)"
  by (simp add: path_join_def join_with_def)

lemma path_join3:
  "path_join [d, f, g] = path_join [path_join [d, f], g]"
  by (cases "d = []"; cases "f = []"; cases "g = []") (simp_all add: path_join_def join_with_def)

lemma path_join_last: "f \<noteq> [] \<Longrightarrow> path_join [d, f] \<noteq> [] \<and> last (path_join [d, f]) = last f"
  by (simp add: path_join2)

lemma last_char_join:
  "f \<noteq> [] \<Longrightarrow> last f \<noteq> CHR ''/'' \<Longrightarrow> last f \<noteq> CHR ''.'' \<Longrightarrow>
     last_char (resolve (path_join [d, f])) = last f"
  using resolve_last_char [of "path_join [d, f]"] path_join_last [of f d]
  by (simp add: last_char_def)

lemma resolve_Nil: "resolve [] = (False, [])"
  by (simp add: resolve_def norm_step_def)

lemma resolve_join_plain:
  assumes "plain_name f"
  shows "resolve (path_join [d, f]) = (fst (resolve d), snd (resolve d) @ [f])"
proof (cases "d = []")
  case True
  from assms have "hd f \<noteq> CHR ''/''" by (cases f) (auto simp: plain_name_def)
  with assms True show ?thesis
    by (simp add: path_join2 resolve_Nil resolve_def split_slash_plain norm_step_def plain_name_def)
next
  case False
  from assms have f: "f \<noteq> []" "f \<noteq> ''.''" "f \<noteq> ''..''" "split_slash f = [f]"
    by (simp_all add: plain_name_def split_slash_plain)
  have "hd (d @ CHR ''/'' # f) = hd d" using False by simp
  with False f show ?thesis
    by (simp add: path_join2 resolve_def Let_def split_slash_append norm_step_def)
qed

lemma writeFileSync_eq:
  "writeFileSync p c st =
     (if snd (resolve p) = [] \<or> resolve p \<in> dirs st \<or> parent (resolve p) \<notin> dirs st
      then (Inl FsError, st)
      else (Inr (), st\<lparr>files := (files st)(resolve p \<mapsto> c)\<rparr>))"
  by (simp add: writeFileSync_def parent_def split: prod.splits)

lemma mkdirSync_eq:
  "mkdirSync p st =
     (if p = [] \<or> (\<exists>d \<in> dirs_of p. files st d \<noteq> None) then (Inl FsError, st)
      else (Inr (), st\<lparr>dirs := dirs st \<union> dirs_of p\<rparr>))"
  by (auto simp: mkdirSync_def dirs_of_def Let_def split: prod.splits)

lemma console_warn_eq: "console_warn w st = (Inr (), st\<lparr>warnings := warnings st @ [w]\<rparr>)"
  by (simp add: console_warn_def)

lemma run_step_fail_world: "run_step s st = (Inl e, st') \<Longrightarrow> st' = st"
  by (cases s) (auto simp: writeFileSync_eq mkdirSync_eq console_warn_eq liftE_def split: if_splits)

lemma run_step_mono:
  "run_step s st = (r, st') \<Longrightarrow> dirs st \<subseteq> dirs st' \<and> dom (files st) \<subseteq> dom (files st')"
  by (cases s) (auto simp: writeFileSync_eq mkdirSync_eq console_warn_eq liftE_def split: if_splits)

lemma run_step_wf: "run_step s st = (r, st') \<Longrightarrow> wf_world st \<Longrightarrow> wf_world st'"
  by (cases s) (auto simp: writeFileSync_eq mkdirSync_eq console_warn_eq liftE_def wf_world_def split: if_splits)

lemma run_script_mono:
  "run_script ss st = (r, st') \<Longrightarrow> dirs st \<subseteq> dirs st' \<and> dom (files st) \<subseteq> dom (files st')"
proof (induction ss arbitrary: st)
  case Nil
  then show ?case by (simp add: liftE_def)
next
  case (Cons s ss)
  obtain r1 st1 where s1: "run_step s st = (r1, st1)" by (cases "run_step s st")
  show ?case
  proof (cases r1)
    case (Inl e)
    with s1 Cons.prems have "st' = st1" by simp
    with run_step_mono [OF s1] show ?thesis by simp
  next
    case (Inr u)
    with s1 Cons.prems have "run_script ss st1 = (r, st')" by simp
    from Cons.IH [OF this] run_step_mono [OF s1] show ?thesis by blast
  qed
qed

lemma run_script_wf: "run_script ss st = (r, st') \<Longrightarrow> wf_world st \<Longrightarrow> wf_world st'"
proof (induction ss arbitrary: st)
  case Nil
  then show ?case by (simp add: liftE_def)
next
  case (Cons s ss)
  obtain r1 st1 where s1: "run_step s st = (r1, st1)" by (cases "run_step s st")
  show ?case
  proof (cases r1)
    case (Inl e)
    with s1 Cons.prems have "st' = st1" by simp
    with run_step_wf [OF s1 Cons.prems(2)] show ?thesis by simp
  next
    case (Inr u)
    with s1 Cons.prems have "run_script ss st1 = (r, st')" by simp
    from Cons.IH [OF this run_step_wf [OF s1 Cons.prems(2)]] show ?thesis .
  qed
qed

lemma run_script_files: "run_script ss st = (r, st') \<Longrightarrow> files st' = files st ++ writes ss st"
proof (induction ss arbitrary: st)
  case Nil
  then show ?case by (simp add: liftE_def)
next
  case (Cons s ss)
  obtain r1 st1 where s1: "run_step s st = (r1, st1)" by (cases "run_step s st")
  show ?case
  proof (cases r1)
    case (Inl e)
    with s1 have f: "run_step s st = (Inl e, st1)" by simp
    then have e1: "st1 = st" by (rule run_step_fail_world)
    from f Cons.prems have e2: "st' = st1" by simp
    from f e1 e2 show ?thesis by simp
  next
    case (Inr u)
    with s1 Cons.prems have rest: "run_script ss st1 = (r, st')" by simp
    have "files st1 = files st ++ step_writes s"
      using s1 Inr by (cases s) (auto simp: writeFileSync_eq mkdirSync_eq console_warn_eq liftE_def split: if_splits)
    with Cons.IH [OF rest] s1 Inr show ?thesis by simp
  qed
qed

text \<open>The outcome of a step depends on the directories and on which files exist.\<close>

lemma run_step_fail_again:
  assumes "run_step s st = (Inl e, st1)" "dirs st' = dirs st" "dom (files st') = dom (files st)"
  shows "run_step s st' = (Inl e, st')"
proof (cases s)
  case (Write p c)
  with assms show ?thesis by (auto simp: writeFileSync_eq split: if_splits)
next
  case (Mkdir p)
  from assms(3) have "\<And>d. (files st' d = None) = (files st d = None)" by (metis domIff)
  with Mkdir assms show ?thesis by (auto simp: mkdirSync_eq split: if_splits)
next
  case (Warn w)
  with assms show ?thesis by (simp add: console_warn_eq)
next
  case (Fail e')
  with assms show ?thesis by (simp add: liftE_def)
qed

lemma run_step_succeeds_again:
  assumes "run_step s st = (Inr u, st1)"
    and "dirs st1 \<subseteq> dirs st'" "dom (files st1) \<subseteq> dom (files st')" "wf_world st'"
  shows "\<exists>st1'. run_step s st' = (Inr u, st1') \<and> dirs st1' = dirs st' \<and> dom (files st1') = dom (files st')
           \<and> files st1' = files st' ++ step_writes s"
proof (cases s)
  case (Write p c)
  with assms(1) have ok: "snd (resolve p) \<noteq> []" "parent (resolve p) \<in> dirs st"
    and st1: "st1 = st\<lparr>files := (files st)(resolve p \<mapsto> c)\<rparr>"
    by (auto simp: writeFileSync_eq split: if_splits)
  from st1 assms(3) have k: "resolve p \<in> dom (files st')" by auto
  have "resolve p \<notin> dirs st'"
  proof
    assume "resolve p \<in> dirs st'"
    with assms(4) have "files st' (resolve p) = None" unfolding wf_world_def by blast
    with k show False by auto
  qed
  moreover from ok st1 assms(2) have "parent (resolve p) \<in> dirs st'" by auto
  ultimately show ?thesis using Write ok k by (auto simp: writeFileSync_eq)
next
  case (Mkdir p)
  with assms(1) have ok: "p \<noteq> []" and st1: "st1 = st\<lparr>dirs := dirs st \<union> dirs_of p\<rparr>"
    by (auto simp: mkdirSync_eq split: if_splits)
  from st1 assms(2) have d: "dirs_of p \<subseteq> dirs st'" by auto
  with assms(4) have "\<forall>d \<in> dirs_of p. files st' d = None" unfolding wf_world_def by blast
  with Mkdir ok d show ?thesis by (auto simp: mkdirSync_eq)
next
  case (Warn w)
  with assms show ?thesis by (simp add: console_warn_eq)
next
  case (Fail e')
  with assms show ?thesis by (simp add: liftE_def)
qed

lemma run_script_again:
  assumes "run_script ss st = (r, st1)"
    and "dirs st' = dirs st1" "dom (files st') = dom (files st1)" "wf_world st'"
  shows "\<exists>st''. run_script ss st' = (r, st'') \<and> dirs st'' = dirs st' \<and> files st'' = files st' ++ writes ss st"
  using assms
proof (induction ss arbitrary: st st')
  case Nil
  then show ?case by (simp add: liftE_def)
next
  case (Cons s ss)
  obtain r1 sta where s1: "run_step s st = (r1, sta)" by (cases "run_step s st")
  show ?case
  proof (cases r1)
    case (Inl e)
    with s1 Cons.prems(1) have r: "r = Inl e" and e: "st1 = sta" by simp_all
    from s1 Inl have "sta = st" by (simp add: run_step_fail_world)
    with e Cons.prems have "run_step s st' = (Inl e, st')"
      using run_step_fail_again [of s st e sta st'] s1 Inl by simp
    with r s1 Inl show ?thesis by simp
  next
    case (Inr u)
    with s1 Cons.prems(1) have rest: "run_script ss sta = (r, st1)" by simp
    from run_script_mono [OF rest] Cons.prems(2,3)
    have "dirs sta \<subseteq> dirs st'" "dom (files sta) \<subseteq> dom (files st')" by simp_all
    from run_step_succeeds_again [OF s1 [unfolded Inr] this Cons.prems(4)]
    obtain sta' where a: "run_step s st' = (Inr u, sta')" "dirs sta' = dirs st'"
      "dom (files sta') = dom (files st')" "files sta' = files st' ++ step_writes s"
      by blast
    from Cons.prems(4) a(2,3) have wf: "wf_world sta'" by (metis domIff wf_world_def)
    from Cons.IH [OF rest, of sta'] a Cons.prems(2,3) wf
    obtain st'' where "run_script ss sta' = (r, st'')" "dirs st'' = dirs sta'"
      "files st'' = files sta' ++ writes ss sta"
      by auto
    with a s1 Inr show ?thesis by simp
  qed
qed

theorem run_script_idempotent:
  assumes "wf_world st" "run_script ss st = (r, st1)"
  shows "\<exists>st2. run_script ss st1 = (r, st2) \<and> dirs st2 = dirs st1 \<and> files st2 = files st1"
proof -
  from run_script_wf [OF assms(2,1)] have wf: "wf_world st1" .
  from run_script_again [OF assms(2) refl refl wf]
  obtain st2 where a: "run_script ss st1 = (r, st2)" "dirs st2 = dirs st1"
    "files st2 = files st1 ++ writes ss st"
    by blast
  from run_script_files [OF assms(2)] have "files st1 = files st ++ writes ss st" .
  then have "files st1 ++ writes ss st = files st1"
    by (metis map_add_assoc map_add_subsumed2 map_le_refl)
  with a show ?thesis by simp
qed

lemma bindIO_assoc: "bindIO (bindIO m f) g = bindIO m (\<lambda>x. bindIO (f x) g)"
  by (rule ext) (simp add: bindIO_def split: prod.splits sum.splits)

lemma bindIO_unit_left: "bindIO (liftE (Inr x)) f = f x"
  by (rule ext) simp

lemma bindIO_fail_left: "bindIO (liftE (Inl e)) f = liftE (Inl e)"
  by (rule ext) (simp add: liftE_def)

lemma bindIO_unit_right: "bindIO m (\<lambda>u. liftE (Inr ())) = m"
  by (rule ext) (simp add: bindIO_def liftE_def split: prod.splits sum.splits)

lemma run_script_append:
  "run_script (xs @ ys) = bindIO (run_script xs) (\<lambda>u. run_script ys)"
  by (induction xs) (simp_all add: bindIO_unit_left bindIO_assoc)

lemma run_script_single: "run_script [s] = run_step s"
  by (simp add: bindIO_unit_right)

lemma run_script_Fail: "run_script (Fail e # ss) = liftE (Inl e)"
  by (simp add: bindIO_fail_left)

lemma truthy_get_prop: "truthy v \<Longrightarrow> get_prop v k = Inr (get_prop_opt v k)"
  by (cases v) (simp_all add: get_prop_opt_def)

lemma get_prop_Inr_opt: "get_prop v k = Inr x \<Longrightarrow> get_prop_opt v k = x"
  by (simp add: get_prop_opt_def)

lemma write_placeholders_script:
  "write_placeholders (voice_dir outDir) xs = run_script (map (slide_step outDir) xs)"
proof (induction xs)
  case Nil
  show ?case by simp
next
  case (Cons x xs)
  show ?case
  proof (cases "get_prop x ''id''")
    case (Inl e)
    then show ?thesis by (simp add: slide_step_def bindIO_fail_left)
  next
    case (Inr v)
    then show ?thesis
      by (simp add: slide_step_def bindIO_unit_left placeholder_path_def get_prop_Inr_opt Cons.IH)
  qed
qed

lemma createVoiceoverPlaceholders_script:
  "createVoiceoverPlaceholders storyboard outDir = run_script (voice_script storyboard outDir)"
proof (cases "get_prop storyboard ''slides''")
  case (Inl e)
  then show ?thesis
    by (simp add: createVoiceoverPlaceholders_def voice_script_def voice_dir_def bindIO_fail_left)
next
  case (Inr v)
  then show ?thesis
    by (cases v)
      (simp_all add: createVoiceoverPlaceholders_def voice_script_def voice_dir_def [symmetric]
        bindIO_fail_left bindIO_unit_left write_placeholders_script)
qed

lemma writeVideoTsx_script:
  "writeVideoTsx storyboard outDir = run_script (video_script storyboard outDir)"
proof (cases "get_prop storyboard ''meta''")
  case (Inl e)
  then show ?thesis
    by (simp add: writeVideoTsx_def video_script_def bindIO_fail_left)
next
  case (Inr meta)
  show ?thesis
  proof (cases "truthy meta")
    case False
    with Inr show ?thesis
      by (simp add: writeVideoTsx_def video_script_def bindIO_unit_left bindIO_unit_right)
  next
    case True
    note t = truthy_get_prop [OF True]
    show ?thesis
    proof (cases "camelCase (js_or (get_prop_opt meta ''videoId'') (Str ''generated-video''))")
      case (Inl e)
      with Inr True show ?thesis
        by (simp add: writeVideoTsx_def video_script_def bindIO_unit_left bindIO_fail_left t Let_def)
    next
      case (Inr ident)
      with \<open>get_prop storyboard ''meta'' = Inr meta\<close> True show ?thesis
        by (simp add: writeVideoTsx_def video_script_def bindIO_unit_left bindIO_unit_right t Let_def)
    qed
  qed
qed

lemma write_summary_script:
  "write_summary outDir s = run_script (summary_script outDir s)"
  by (simp add: write_summary_def summary_script_def bindIO_unit_right)

lemma tail_script_run:
  "run_script (tail_script outDir s jsonObj) =
     bindIO (writeVideoTsx jsonObj outDir) (\<lambda>u.
     bindIO (createVoiceoverPlaceholders jsonObj outDir) (\<lambda>u.
     write_summary outDir s))"
  by (simp add: tail_script_def run_script_append writeVideoTsx_script
      createVoiceoverPlaceholders_script write_summary_script)

lemma emit_artifacts_script:
  "emit_artifacts outDir b jsonObj = run_script (emit_script outDir b jsonObj)"
  by (simp add: emit_artifacts_def emit_script_def tail_script_run)



lemma run_step_untouched:
  "run_step s st = (r, st') \<Longrightarrow> (\<And>p c. s = Write p c \<Longrightarrow> resolve p \<noteq> k) \<Longrightarrow> files st' k = files st k"
  by (cases s) (auto simp: writeFileSync_eq mkdirSync_eq console_warn_eq liftE_def split: if_splits)

lemma run_script_untouched:
  "run_script ss st = (r, st') \<Longrightarrow> (\<And>p c. Write p c \<in> set ss \<Longrightarrow> resolve p \<noteq> k) \<Longrightarrow>
     files st' k = files st k"
proof (induction ss arbitrary: st)
  case Nil
  then show ?case by (simp add: liftE_def)
next
  case (Cons s ss)
  obtain r1 st1 where s1: "run_step s st = (r1, st1)" by (cases "run_step s st")
  have k1: "files st1 k = files st k"
  proof (rule run_step_untouched [OF s1])
    fix p c
    assume "s = Write p c"
    then have "Write p c \<in> set (s # ss)" by simp
    then show "resolve p \<noteq> k" by (rule Cons.prems(2))
  qed
  show ?case
  proof (cases r1)
    case (Inl e)
    with s1 Cons.prems(1) have "st' = st1" by simp
    with k1 show ?thesis by simp
  next
    case (Inr u)
    with s1 Cons.prems(1) have rest: "run_script ss st1 = (r, st')" by simp
    have "files st' k = files st1 k"
    proof (rule Cons.IH [OF rest])
      fix p c
      assume "Write p c \<in> set ss"
      then have "Write p c \<in> set (s # ss)" by simp
      then show "resolve p \<noteq> k" by (rule Cons.prems(2))
    qed
    with k1 show ?thesis by simp
  qed
qed

lemma video_script_writes:
  "Write p c \<in> set (video_script j outDir) \<Longrightarrow> p = path_join [outDir, ''Video.tsx'']"
  by (auto simp: video_script_def Let_def split: sum.splits if_splits)

lemma voice_script_writes:
  "Write p c \<in> set (voice_script j outDir) \<Longrightarrow> (\<exists>slide. p = placeholder_path outDir slide) \<and> c = []"
  by (auto simp: voice_script_def slide_step_def split: sum.splits jsval.splits)

lemma summary_script_writes:
  "Write p c \<in> set (summary_script outDir s) \<Longrightarrow> p = path_join [outDir, ''EXEC_SUMMARY.txt'']"
  by (auto simp: summary_script_def split: if_splits)

lemma last_char_placeholder: "last_char (resolve (placeholder_path outDir slide)) = CHR ''3''"
  unfolding placeholder_path_def by (subst last_char_join) simp_all

lemma last_char_names:
  "last_char (resolve (path_join [outDir, ''storyboard.yaml''])) = CHR ''l''"
  "last_char (resolve (path_join [outDir, ''storyboard.json''])) = CHR ''n''"
  "last_char (resolve (path_join [outDir, ''Video.tsx''])) = CHR ''x''"
  "last_char (resolve (path_join [outDir, ''EXEC_SUMMARY.txt''])) = CHR ''t''"
  by (subst last_char_join; simp)+

lemma tail_script_writes:
  assumes "Write p c \<in> set (tail_script outDir s j)"
  shows "last_char (resolve p) \<in> {CHR ''x'', CHR ''3'', CHR ''t''}"
proof -
  from assms consider "Write p c \<in> set (video_script j outDir)"
    | "Write p c \<in> set (voice_script j outDir)" | "Write p c \<in> set (summary_script outDir s)"
    by (auto simp: tail_script_def)
  then show ?thesis
  proof cases
    case 1
    then show ?thesis by (auto dest!: video_script_writes simp: last_char_names)
  next
    case 2
    then show ?thesis by (auto dest!: voice_script_writes simp: last_char_placeholder)
  next
    case 3
    then show ?thesis by (auto dest!: summary_script_writes simp: last_char_names)
  qed
qed

lemma tail_script_keeps:
  assumes "run_script (tail_script outDir s j) st = (r, st')"
    and "last_char k \<notin> {CHR ''x'', CHR ''3'', CHR ''t''}"
  shows "files st' k = files st k"
  using assms(1)
proof (rule run_script_untouched)
  fix p c
  assume "Write p c \<in> set (tail_script outDir s j)"
  from tail_script_writes [OF this] assms(2) show "resolve p \<noteq> k" by auto
qed

lemma plain_names [simp]:
  "plain_name ''storyboard.yaml''" "plain_name ''storyboard.json''"
  "plain_name ''Video.tsx''" "plain_name ''EXEC_SUMMARY.txt''"
  "plain_name ''public''" "plain_name ''voiceovers''"
  by (simp_all add: plain_name_def)

lemma writeFileSync_plain:
  assumes "plain_name f" "resolve outDir \<in> dirs st" "resolve (path_join [outDir, f]) \<notin> dirs st"
  shows "writeFileSync (path_join [outDir, f]) c st =
           (Inr (), st\<lparr>files := (files st)(resolve (path_join [outDir, f]) \<mapsto> c)\<rparr>)"
proof -
  from resolve_join_plain [OF assms(1), of outDir]
  have r: "resolve (path_join [outDir, f]) = (fst (resolve outDir), snd (resolve outDir) @ [f])" .
  then have "parent (resolve (path_join [outDir, f])) = resolve outDir"
    by (simp add: parent_def)
  with assms(2,3) r show ?thesis by (simp add: writeFileSync_eq)
qed

lemma yaml_json_keys_differ:
  "resolve (path_join [outDir, ''storyboard.yaml'']) \<noteq> resolve (path_join [outDir, ''storyboard.json''])"
  by (simp add: resolve_join_plain)

lemma load_yaml_world:
  "load_yaml e y st = (r, st') \<Longrightarrow>
     files st' = files st \<and> dirs st' = dirs st \<and> net_calls st' = net_calls st \<and>
     (\<exists>v. r = Inr v) \<and> DurationMismatch \<in> set (warnings st') = (DurationMismatch \<in> set (warnings st))"
  by (auto simp: load_yaml_def bindIO_def liftE_def console_warn_eq split: option.splits)

lemma validateStoryboard_parse_error:
  assumes "json_parse e j = Inl msg"
  shows "\<exists>st'. validateStoryboard e y j st = (Inl (InvalidJson msg), st') \<and> files st' = files st \<and> dirs st' = dirs st"
proof -
  obtain r1 st1 where l: "load_yaml e y st = (r1, st1)" by (cases "load_yaml e y st")
  from load_yaml_world [OF l] obtain v where "r1 = Inr v" "files st1 = files st" "dirs st1 = dirs st"
    by blast
  with l assms show ?thesis
    by (simp add: validateStoryboard_def bindIO_def liftE_def)
qed


lemma process_reply_extracted:
  assumes "extractBlocks reply = Inr b"
  shows "process_reply e outDir (Str reply) =
           bindIO (writeFileSync (path_join [outDir, ''storyboard.yaml'']) (yaml b)) (\<lambda>u.
           bindIO (writeFileSync (path_join [outDir, ''storyboard.json'']) (json b)) (\<lambda>u.
           bindIO (validateStoryboard e (yaml b) (json b)) (\<lambda>(yamlObj, jsonObj).
           run_script (tail_script outDir (summary b) jsonObj))))"
  using assms by (simp add: process_reply_def bindIO_unit_left tail_script_run)

lemma process_reply_written:
  assumes "extractBlocks reply = Inr b"
    and "resolve outDir \<in> dirs st"
    and "resolve (path_join [outDir, ''storyboard.yaml'']) \<notin> dirs st"
    and "resolve (path_join [outDir, ''storyboard.json'']) \<notin> dirs st"
  shows "process_reply e outDir (Str reply) st =
           bindIO (validateStoryboard e (yaml b) (json b)) (\<lambda>(yamlObj, jsonObj).
             run_script (tail_script outDir (summary b) jsonObj)) (serialized outDir b st)"
proof -
  let ?st1 = "st\<lparr>files := (files st)(resolve (path_join [outDir, ''storyboard.yaml'']) \<mapsto> yaml b)\<rparr>"
  have w1: "writeFileSync (path_join [outDir, ''storyboard.yaml'']) (yaml b) st = (Inr (), ?st1)"
    using assms(2,3) by (simp add: writeFileSync_plain)
  have w2: "writeFileSync (path_join [outDir, ''storyboard.json'']) (json b) ?st1 = (Inr (), serialized outDir b st)"
    using assms(2,4) by (simp add: writeFileSync_plain serialized_def)
  show ?thesis
    unfolding process_reply_extracted [OF assms(1)]
    by (simp add: bindIO_def w1 w2)
qed


lemma resolve_out: "resolve ''out'' = (False, [''out''])"
  by (simp add: resolve_def norm_step_def)

lemma resolve_out_name: "plain_name f \<Longrightarrow> resolve (path_join [''out'', f]) = (False, [''out'', f])"
  by (simp add: resolve_join_plain resolve_out)

lemma main_demo:
  assumes "argv e = [''--input'', ''research.md'', ''--output'', ''out'']"
    and "api_key e = Some ''sk-demo''" and "fetch e = service reply"
  shows "main e demo_world =
           (case process_reply e ''out'' (Str reply) demo_started of
              (Inl err, st') \<Rightarrow> (Inl (Threw err), st')
            | (Inr u, st') \<Rightarrow> (Inr u, st'))"
proof -
  let ?st1 = "demo_world\<lparr>dirs := {(False, []), (True, []), (False, [''out''])}\<rparr>"
  have m: "mkdirSync ''out'' demo_world = (Inr (), ?st1)"
    by (auto simp: mkdirSync_eq dirs_of_def resolve_out demo_world_def)
  have r: "readFileSync ''research.md'' ?st1 = (Inr ''Three ways AI helps.'', ?st1)"
    by (simp add: readFileSync_def resolve_def norm_step_def demo_world_def)
  have c: "callOpenAI e p ?st1 = (Inr (Str reply), demo_started)" for p
    using assms(2,3)
    by (simp add: callOpenAI_def service_def Let_def show_nat.simps demo_started_def demo_world_def)
  have "pipeline e ''research.md'' ''out'' demo_world = process_reply e ''out'' (Str reply) demo_started"
    unfolding pipeline_def bindIO_def by (simp only: m r c prod.case sum.case)
  with assms(1) show ?thesis
    by (simp add: main_def parseArgs_def)
qed

lemma demo_bad_blocks:
  \<open>extractBlocks demo_reply_bad_json = Inr \<lparr>yaml = ''meta: {}'', json = ''{"meta":'', summary = []\<rparr>\<close>
  by (simp add: extractBlocks_def demo_reply_bad_json_def lazy_body_def js_trim_def ws_seqs_def strip_ws.simps)


















lemma plain_id_Str: "plain_id v \<Longrightarrow> \<exists>i. v = Str i \<and> CHR ''/'' \<notin> set i"
  by (cases v) simp_all

lemma run_script_append_Inr:
  assumes "run_script (xs @ ys) st = (Inr (), st')"
  shows "\<exists>stm. run_script xs st = (Inr (), stm) \<and> run_script ys stm = (Inr (), st')"
proof -
  obtain r1 stm where x: "run_script xs st = (r1, stm)" by (cases "run_script xs st")
  with assms show ?thesis
    by (cases r1) (simp_all add: run_script_append bindIO_def)
qed

lemma run_script_Inr_no_Fail: "run_script ss st = (Inr (), st') \<Longrightarrow> Fail e \<notin> set ss"
proof (induction ss arbitrary: st)
  case Nil
  then show ?case by simp
next
  case (Cons s ss)
  obtain r1 st1 where s1: "run_step s st = (r1, st1)" by (cases "run_step s st")
  with Cons.prems have r1: "r1 = Inr ()" and rest: "run_script ss st1 = (Inr (), st')"
    by (cases r1; simp)+
  from s1 r1 have "s \<noteq> Fail e" by (auto simp: liftE_def)
  with Cons.IH [OF rest] show ?case by simp
qed

lemma slide_steps_written:
  assumes "run_script (map (slide_step outDir) slides) st = (Inr (), st')"
  shows "(\<forall>k. files st k = Some [] \<longrightarrow> files st' k = Some [])
       \<and> (\<forall>s \<in> set slides. files st' (placeholder_file outDir s) = Some [])"
  using assms
proof (induction slides arbitrary: st)
  case Nil
  then show ?case by (simp add: liftE_def)
next
  case (Cons s slides)
  obtain r1 st1 where s1: "run_step (slide_step outDir s) st = (r1, st1)"
    by (cases "run_step (slide_step outDir s) st")
  with Cons.prems have r1: "r1 = Inr ()" and rest: "run_script (map (slide_step outDir) slides) st1 = (Inr (), st')"
    by (cases r1; simp)+
  from s1 r1 have w: "slide_step outDir s = Write (placeholder_path outDir s) []"
    by (auto simp: slide_step_def liftE_def split: sum.splits)
  with s1 r1 have st1: "st1 = st\<lparr>files := (files st)(placeholder_file outDir s \<mapsto> [])\<rparr>"
    by (auto simp: writeFileSync_eq placeholder_file_def split: if_splits)
  from Cons.IH [OF rest] have ih: "\<And>k. files st1 k = Some [] \<Longrightarrow> files st' k = Some []"
    "\<And>x. x \<in> set slides \<Longrightarrow> files st' (placeholder_file outDir x) = Some []"
    by blast+
  have a: "files st' k = Some []" if "files st k = Some []" for k
    using that st1 by (intro ih(1)) simp
  have b: "files st' (placeholder_file outDir s) = Some []"
    using st1 by (intro ih(1)) simp
  from a b ih(2) show ?case by auto
qed

lemma voice_script_Inr:
  assumes "run_script (voice_script sb outDir) st = (Inr (), st')"
  shows "\<exists>slides. get_prop sb ''slides'' = Inr (Arr slides)
           \<and> (\<forall>s \<in> set slides. files st' (placeholder_file outDir s) = Some [])"
proof -
  from run_script_Inr_no_Fail [OF assms] have nf: "\<And>e. Fail e \<notin> set (voice_script sb outDir)" .
  have "\<exists>slides. get_prop sb ''slides'' = Inr (Arr slides)"
  proof (cases "get_prop sb ''slides''")
    case (Inl e)
    with nf [of e] show ?thesis by (simp add: voice_script_def)
  next
    case (Inr v)
    with nf [of TypeError] show ?thesis by (cases v) (simp_all add: voice_script_def)
  qed
  then obtain slides where s: "get_prop sb ''slides'' = Inr (Arr slides)" by blast
  then have v: "voice_script sb outDir = [Mkdir (voice_dir outDir)] @ map (slide_step outDir) slides"
    by (simp add: voice_script_def)
  from assms [unfolded v] run_script_append_Inr obtain stm where
    "run_script (map (slide_step outDir) slides) stm = (Inr (), st')" by blast
  from slide_steps_written [OF this] s show ?thesis by blast
qed

lemma placeholder_file_plain:
  assumes "get_prop_opt s ''id'' = Str i" "CHR ''/'' \<notin> set i"
  shows "placeholder_file outDir s = (fst (resolve (voice_dir outDir)), snd (resolve (voice_dir outDir)) @ [i @ ''.mp3''])"
proof -
  have "i @ ''.mp3'' \<noteq> ''.''" "i @ ''.mp3'' \<noteq> ''..''"
    by (cases i; simp)+
  with assms(2) have "plain_name (i @ ''.mp3'')" by (simp add: plain_name_def)
  from resolve_join_plain [OF this, of "voice_dir outDir"] assms(1) show ?thesis
    by (simp add: placeholder_file_def placeholder_path_def)
qed

lemma placeholder_files_card:
  "card (placeholder_file outDir ` set slides) \<le> length slides"
  "plain_distinct_ids slides \<Longrightarrow> card (placeholder_file outDir ` set slides) = length slides"
proof -
  show "card (placeholder_file outDir ` set slides) \<le> length slides"
    by (metis card_length length_map list.set_map)
next
  assume p: "plain_distinct_ids slides"
  have "inj_on (placeholder_file outDir) (set slides)"
  proof (rule inj_onI)
    fix x y
    assume x: "x \<in> set slides" and y: "y \<in> set slides"
      and e: "placeholder_file outDir x = placeholder_file outDir y"
    from p x have "plain_id (get_prop_opt x ''id'')"
      by (simp add: plain_distinct_ids_def list_all_iff)
    from plain_id_Str [OF this] obtain i where i: "get_prop_opt x ''id'' = Str i" "CHR ''/'' \<notin> set i"
      by blast
    from p y have "plain_id (get_prop_opt y ''id'')"
      by (simp add: plain_distinct_ids_def list_all_iff)
    from plain_id_Str [OF this] obtain j where j: "get_prop_opt y ''id'' = Str j" "CHR ''/'' \<notin> set j"
      by blast
    from e placeholder_file_plain [OF i] placeholder_file_plain [OF j] have "i = j" by simp
    with i j have "get_prop_opt x ''id'' = get_prop_opt y ''id''" by simp
    moreover from p have "inj_on (\<lambda>s. get_prop_opt s ''id'') (set slides)"
      by (simp add: plain_distinct_ids_def distinct_map)
    ultimately show "x = y" using x y by (auto dest: inj_onD)
  qed
  moreover from p have "distinct slides"
    by (auto simp: plain_distinct_ids_def distinct_map)
  ultimately show "card (placeholder_file outDir ` set slides) = length slides"
    by (simp add: card_image distinct_card)
qed

lemma two_writes_Inr:
  assumes "run_script [Write p c, Write q d] st = (Inr (), st')"
  shows "files st' = (files st)(resolve p \<mapsto> c, resolve q \<mapsto> d) \<and> dirs st' = dirs st"
  using assms by (auto simp: bindIO_def liftE_def writeFileSync_eq split: if_splits)

lemma demo_emit:
  "\<exists>st1. emit_artifacts ''out'' blocks_full parsed_full demo_started = (Inr (), st1)"
  by (simp add: bindIO_def liftE_def emit_artifacts_def console_warn_eq writeFileSync_eq mkdirSync_eq
      parent_def dirs_of_def demo_started_def demo_world_def writeVideoTsx_def createVoiceoverPlaceholders_def
      write_summary_def parsed_full_def demo_slides_def blocks_full_def js_or_def js_mul_def get_prop_opt_def
      camelCase_3_ways path_join_def join_with_def resolve_def norm_step_def Let_def
      js_trim_def ws_seqs_def strip_ws.simps)

lemma join_with_append:
  "xs \<noteq> [] \<Longrightarrow> ys \<noteq> [] \<Longrightarrow> join_with sep (xs @ ys) = join_with sep xs @ sep @ join_with sep ys"
  by (cases xs; cases ys) (simp_all add: join_with_def)

lemma set_join_with: "set (join_with sep xs) \<subseteq> set sep \<union> \<Union> (set ` set xs)"
  by (cases xs) (auto simp: join_with_def)

lemma master_lines_split:
  "MASTER_PROMPT_lines = take 27 MASTER_PROMPT_lines @ [PLACEHOLDER, ''<<<END>>>'']"
proof -
  have "drop 27 MASTER_PROMPT_lines = [PLACEHOLDER, ''<<<END>>>'']"
    by (simp add: MASTER_PROMPT_lines_def PLACEHOLDER_def)
  then show ?thesis
    by (metis append_take_drop_id)
qed

lemma master_lines_head: "MASTER_PROMPT_lines \<noteq> []"
  by (simp add: MASTER_PROMPT_lines_def)

lemma master_prompt_split: "MASTER_PROMPT = master_prefix @ PLACEHOLDER @ master_suffix"
proof -
  have "MASTER_PROMPT = join_with ''\<newline>'' (take 27 MASTER_PROMPT_lines @ [PLACEHOLDER, ''<<<END>>>''])"
    unfolding MASTER_PROMPT_def using master_lines_split by simp
  also have "\<dots> = join_with ''\<newline>'' (take 27 MASTER_PROMPT_lines) @ ''\<newline>'' @
      join_with ''\<newline>'' [PLACEHOLDER, ''<<<END>>>'']"
    by (rule join_with_append) (simp_all add: master_lines_head)
  finally show ?thesis
    by (simp add: master_prefix_def master_suffix_def join_with_def)
qed

lemma no_X_in_head: "CHR ''X'' \<notin> set (join_with ''\<newline>'' (take 27 MASTER_PROMPT_lines))"
proof -
  have "\<forall>l \<in> set (take 27 MASTER_PROMPT_lines). CHR ''X'' \<notin> set l"
    by (simp add: MASTER_PROMPT_lines_def u2011_def u2013_def u201C_def u201D_def u2022_def
        u2026_def u202F_def u2248_def u2264_def)
  with set_join_with [of "''\<newline>''" "take 27 MASTER_PROMPT_lines"] show ?thesis
    by auto
qed

lemma find_first_here: "find_first pat (pat @ post) = Some ([], post)"
proof (cases "pat @ post")
  case Nil
  then show ?thesis by simp
next
  case (Cons a list)
  have "prefix pat (a # list)" "drop (length pat) (a # list) = post"
    by (simp_all add: Cons [symmetric])
  then show ?thesis unfolding Cons by simp
qed

lemma find_first_after_separator:
  assumes "c \<notin> set pat" "pat \<noteq> []" "\<not> sublist pat p"
  shows "find_first pat (p @ [c] @ pat @ post) = Some (p @ [c], post)"
  using assms(3)
proof (induction p)
  case Nil
  from assms(1,2) have "\<not> prefix pat (c # pat @ post)"
    by (cases pat) auto
  then show ?case by (simp add: find_first_here)
next
  case (Cons x p)
  from Cons.prems have np: "\<not> sublist pat p"
    by (auto simp: sublist_Cons_right)
  have "\<not> prefix pat (x # p @ [c] @ pat @ post)"
  proof
    assume "prefix pat (x # p @ [c] @ pat @ post)"
    then have "prefix pat ((x # p) @ c # pat @ post)" by simp
    then have "prefix pat (x # p) \<or> (\<exists>us. pat = (x # p) @ us \<and> prefix us (c # pat @ post))"
      unfolding prefix_append by blast
    then show False
    proof
      assume "prefix pat (x # p)"
      with Cons.prems show False by (auto dest: prefix_imp_sublist)
    next
      assume "\<exists>us. pat = (x # p) @ us \<and> prefix us (c # pat @ post)"
      then obtain us where us: "pat = (x # p) @ us" "prefix us (c # pat @ post)" by blast
      show False
      proof (cases us)
        case Nil
        with us(1) Cons.prems show False by simp
      next
        case (Cons u us')
        with us(2) have "u = c" by simp
        with Cons us(1) assms(1) show False by simp
      qed
    qed
  qed
  with Cons.IH [OF np] show ?case by simp
qed


lemma placeholder_chars:
  "CHR ''\<newline>'' \<notin> set PLACEHOLDER" "PLACEHOLDER \<noteq> []" "CHR ''X'' \<in> set PLACEHOLDER"
  by (simp_all add: PLACEHOLDER_def)

lemma placeholder_not_in_head:
  "\<not> sublist PLACEHOLDER (join_with ''\<newline>'' (take 27 MASTER_PROMPT_lines))"
  using no_X_in_head placeholder_chars(3) set_mono_sublist by fastforce

lemma find_placeholder: "find_first PLACEHOLDER MASTER_PROMPT = Some (master_prefix, master_suffix)"
proof -
  have "MASTER_PROMPT = join_with ''\<newline>'' (take 27 MASTER_PROMPT_lines) @ [CHR ''\<newline>''] @ PLACEHOLDER @ master_suffix"
    by (simp add: master_prompt_split master_prefix_def)
  then show ?thesis
    using find_first_after_separator [OF placeholder_chars(1,2) placeholder_not_in_head, of master_suffix]
    by (simp add: master_prefix_def)
qed


lemma compose_prompt_dollar_amp: "compose_prompt ''$&'' = MASTER_PROMPT"
proof -
  have "compose_prompt ''$&'' = master_prefix @ PLACEHOLDER @ master_suffix"
    by (simp add: compose_prompt_def js_replace_def find_placeholder)
  then show ?thesis by (simp add: master_prompt_split)
qed









section \<open>The claims\<close>

text \<open>
  Claim C1. When the JSON block does not parse, the run fails with the parse error, but
  not before anything is written: \<^verbatim>\<open>main\<close> writes \<^verbatim>\<open>storyboard.yaml\<close> and
  \<^verbatim>\<open>storyboard.json\<close> before it calls \<^verbatim>\<open>validateStoryboard\<close>. With the output
  directory in place, the failed run leaves exactly these two files behind; the
  composition stub and the placeholder audio files are not written.
\<close>

theorem C1_serializations_written_before_parse_error:
  assumes "extractBlocks reply = Inr b"
    and "json_parse e (json b) = Inl msg"
    and "resolve outDir \<in> dirs st"
    and "resolve (path_join [outDir, ''storyboard.yaml'']) \<notin> dirs st"
    and "resolve (path_join [outDir, ''storyboard.json'']) \<notin> dirs st"
  shows "\<exists>st'. process_reply e outDir (Str reply) st = (Inl (InvalidJson msg), st')
           \<and> classify (InvalidJson msg) = ParseError
           \<and> files st' = (files st)
                 (resolve (path_join [outDir, ''storyboard.yaml'']) \<mapsto> yaml b,
                  resolve (path_join [outDir, ''storyboard.json'']) \<mapsto> json b)"
proof -
  from validateStoryboard_parse_error [OF assms(2), of "yaml b" "serialized outDir b st"]
  obtain st' where v: "validateStoryboard e (yaml b) (json b) (serialized outDir b st) = (Inl (InvalidJson msg), st')"
    and f: "files st' = files (serialized outDir b st)"
    by blast
  from v have "process_reply e outDir (Str reply) st = (Inl (InvalidJson msg), st')"
    by (simp add: process_reply_written [OF assms(1,3,4,5)])
  with f show ?thesis by (simp add: serialized_def)
qed

theorem C1_serializations_written_before_parse_error_witness:
  \<open>\<exists>st'. main demo_env_bad_json demo_world = (Inl (Threw (InvalidJson ''Unexpected end of JSON input'')), st')
       \<and> files st' (False, [''out'', ''storyboard.yaml'']) = Some ''meta: {}''
       \<and> files st' (False, [''out'', ''storyboard.json'']) = Some ''{"meta":''
       \<and> files st' (False, [''out'', ''Video.tsx'']) = None\<close>
proof -
  have d: "resolve ''out'' \<in> dirs demo_started"
    "resolve (path_join [''out'', ''storyboard.yaml'']) \<notin> dirs demo_started"
    "resolve (path_join [''out'', ''storyboard.json'']) \<notin> dirs demo_started"
    by (simp_all add: resolve_out resolve_out_name demo_started_def)
  have p: "json_parse demo_env_bad_json (json \<lparr>yaml = ''meta: {}'', json = ''{\"meta\":'', summary = []\<rparr>) = Inl ''Unexpected end of JSON input''"
    by (simp add: demo_env_bad_json_def)
  from C1_serializations_written_before_parse_error [OF demo_bad_blocks p d]
  obtain st' where s: "process_reply demo_env_bad_json ''out'' (Str demo_reply_bad_json) demo_started
        = (Inl (InvalidJson ''Unexpected end of JSON input''), st')"
    and f: "files st' = (files demo_started)
        (resolve (path_join [''out'', ''storyboard.yaml'']) \<mapsto> ''meta: {}'',
         resolve (path_join [''out'', ''storyboard.json'']) \<mapsto> ''{\"meta\":'')"
    by auto
  have e: "argv demo_env_bad_json = [''--input'', ''research.md'', ''--output'', ''out'']"
    "api_key demo_env_bad_json = Some ''sk-demo''" "fetch demo_env_bad_json = service demo_reply_bad_json"
    by (simp_all add: demo_env_bad_json_def)
  have "main demo_env_bad_json demo_world = (Inl (Threw (InvalidJson ''Unexpected end of JSON input'')), st')"
    unfolding main_demo [OF e] by (simp add: s)
  with f show ?thesis
    by (simp add: resolve_out_name demo_started_def demo_world_def)
qed







text \<open>
  Claim C4, as amended. In a world where no path is both a file and a directory, running
  the emitter a second time with the same structure, block texts and output directory
  ends as the first run did and leaves every file and directory as the first run left
  them. After a run that succeeds, \<^verbatim>\<open>storyboard.yaml\<close> and \<^verbatim>\<open>storyboard.json\<close> hold
  the block texts, and every slide has its empty placeholder file. Slides with the same
  \<^verbatim>\<open>id\<close> share one file, so the number of placeholder files is at most the number of
  slides; it is the number of slides when the ids are distinct strings without a slash.
\<close>

theorem C4_emitter_twice:
  assumes "wf_world st"
    and "emit_artifacts outDir b sb st = (r, st1)"
  shows "(\<exists>st2. emit_artifacts outDir b sb st1 = (r, st2) \<and> files st2 = files st1 \<and> dirs st2 = dirs st1)
       \<and> (r = Inr () \<longrightarrow>
            files st1 (resolve (path_join [outDir, ''storyboard.yaml''])) = Some (yaml b)
          \<and> files st1 (resolve (path_join [outDir, ''storyboard.json''])) = Some (json b)
          \<and> (\<exists>slides. get_prop sb ''slides'' = Inr (Arr slides)
                \<and> (\<forall>s \<in> set slides. files st1 (placeholder_file outDir s) = Some [])
                \<and> card (placeholder_file outDir ` set slides) \<le> length slides
                \<and> (plain_distinct_ids slides \<longrightarrow>
                      card (placeholder_file outDir ` set slides) = length slides)))"
proof -
  let ?y = "resolve (path_join [outDir, ''storyboard.yaml''])"
  let ?j = "resolve (path_join [outDir, ''storyboard.json''])"
  from assms(2) have run: "run_script (emit_script outDir b sb) st = (r, st1)"
    by (simp add: emit_artifacts_script)
  from run_script_idempotent [OF assms(1) run]
  have twice: "\<exists>st2. emit_artifacts outDir b sb st1 = (r, st2) \<and> files st2 = files st1 \<and> dirs st2 = dirs st1"
    by (auto simp: emit_artifacts_script)
  have ok: "files st1 ?y = Some (yaml b) \<and> files st1 ?j = Some (json b)
          \<and> (\<exists>slides. get_prop sb ''slides'' = Inr (Arr slides)
                \<and> (\<forall>s \<in> set slides. files st1 (placeholder_file outDir s) = Some [])
                \<and> card (placeholder_file outDir ` set slides) \<le> length slides
                \<and> (plain_distinct_ids slides \<longrightarrow>
                      card (placeholder_file outDir ` set slides) = length slides))"
    if r: "r = Inr ()"
  proof -
    from run r have "run_script ([Write (path_join [outDir, ''storyboard.yaml'']) (yaml b),
        Write (path_join [outDir, ''storyboard.json'']) (json b)] @ tail_script outDir (summary b) sb) st = (Inr (), st1)"
      by (simp add: emit_script_def)
    from run_script_append_Inr [OF this] obtain sta where
      w: "run_script [Write (path_join [outDir, ''storyboard.yaml'']) (yaml b),
        Write (path_join [outDir, ''storyboard.json'']) (json b)] st = (Inr (), sta)"
      and t: "run_script (tail_script outDir (summary b) sb) sta = (Inr (), st1)"
      by blast
    from two_writes_Inr [OF w] have fa: "files sta ?y = Some (yaml b)" "files sta ?j = Some (json b)"
      by (simp_all add: yaml_json_keys_differ)
    from tail_script_keeps [OF t, of ?y] fa(1) have y: "files st1 ?y = Some (yaml b)"
      by (simp add: last_char_names)
    from tail_script_keeps [OF t, of ?j] fa(2) have j: "files st1 ?j = Some (json b)"
      by (simp add: last_char_names)
    from t have "run_script (video_script sb outDir @ (voice_script sb outDir @ summary_script outDir (summary b))) sta
        = (Inr (), st1)"
      by (simp add: tail_script_def)
    from run_script_append_Inr [OF this] obtain stb where
      "run_script (voice_script sb outDir @ summary_script outDir (summary b)) stb = (Inr (), st1)"
      by blast
    from run_script_append_Inr [OF this] obtain stc where
      v: "run_script (voice_script sb outDir) stb = (Inr (), stc)"
      and s: "run_script (summary_script outDir (summary b)) stc = (Inr (), st1)"
      by blast
    from voice_script_Inr [OF v] obtain slides where
      sl: "get_prop sb ''slides'' = Inr (Arr slides)"
      and ph: "\<And>x. x \<in> set slides \<Longrightarrow> files stc (placeholder_file outDir x) = Some []"
      by blast
    have ph1: "files st1 (placeholder_file outDir x) = Some []" if "x \<in> set slides" for x
    proof -
      have "files st1 (placeholder_file outDir x) = files stc (placeholder_file outDir x)"
        using s
      proof (rule run_script_untouched)
        fix p c
        assume "Write p c \<in> set (summary_script outDir (summary b))"
        then have "last_char (resolve p) = CHR ''t''"
          by (auto dest!: summary_script_writes simp: last_char_names)
        moreover have "last_char (placeholder_file outDir x) = CHR ''3''"
          by (simp add: placeholder_file_def last_char_placeholder)
        ultimately show "resolve p \<noteq> placeholder_file outDir x" by auto
      qed
      with ph [OF that] show ?thesis by simp
    qed
    from y j sl ph1 placeholder_files_card [where outDir = outDir and slides = slides] show ?thesis by blast
  qed
  from twice ok show ?thesis by blast
qed

theorem C4_counterexample:
  "\<exists>st1. emit_artifacts ''out'' blocks_dup parsed_dup demo_started = (Inr (), st1)
     \<and> get_prop parsed_dup ''slides'' = Inr (Arr [Obj [(''id'', Str ''hook'')], Obj [(''id'', Str ''hook'')]])
     \<and> length [Obj [(''id'', Str ''hook'')], Obj [(''id'', Str ''hook'')]] = 2
     \<and> (\<forall>n. (files st1 (False, [''out'', ''public'', ''voiceovers'', n]) \<noteq> None) = (n = ''hook.mp3''))"
  by (simp add: bindIO_def liftE_def emit_artifacts_def console_warn_eq writeFileSync_eq mkdirSync_eq
      parent_def dirs_of_def demo_started_def demo_world_def writeVideoTsx_def createVoiceoverPlaceholders_def
      write_summary_def parsed_dup_def blocks_dup_def path_join_def join_with_def resolve_def
      norm_step_def Let_def)

theorem C4_emitter_twice_witness:
  "\<exists>st1 st2. wf_world demo_started
     \<and> emit_artifacts ''out'' blocks_full parsed_full demo_started = (Inr (), st1)
     \<and> emit_artifacts ''out'' blocks_full parsed_full st1 = (Inr (), st2)
     \<and> files st2 = files st1 \<and> dirs st2 = dirs st1
     \<and> files st1 (resolve (path_join [''out'', ''storyboard.json''])) = Some json_full
     \<and> card (placeholder_file ''out'' ` set demo_slides) = 3"
proof -
  have wf: "wf_world demo_started"
    by (auto simp: wf_world_def demo_started_def demo_world_def)
  from demo_emit obtain st1 where
    e: "emit_artifacts ''out'' blocks_full parsed_full demo_started = (Inr (), st1)" by blast
  have s: "get_prop parsed_full ''slides'' = Inr (Arr demo_slides)"
    by (simp add: parsed_full_def)
  have p: "plain_distinct_ids demo_slides"
    by (simp add: plain_distinct_ids_def demo_slides_def get_prop_opt_def)
  from C4_emitter_twice [OF wf e] s p wf e show ?thesis
    by (auto simp: demo_slides_def blocks_full_def)
qed

text \<open>
  Claim C5. For \<^verbatim>\<open>meta.videoId = "3-ways-ai-helps"\<close> the identifier that
  \<^verbatim>\<open>camelCase\<close> gives, and that \<^verbatim>\<open>Video.tsx\<close> exports, is \<^verbatim>\<open>WaysAiHelps\<close>: the first
  replacement gives \<^verbatim>\<open>3WaysAiHelps\<close> and the second removes the leading digit with the
  other leading non-letters. It is a valid identifier, it is not empty and it does not
  start with a digit.
\<close>

theorem C5_identifier_3_ways_ai_helps:
  "camelCase (Str ''3-ways-ai-helps'') = Inr ''WaysAiHelps''
   \<and> valid_identifier ''WaysAiHelps''
   \<and> ''WaysAiHelps'' \<noteq> []
   \<and> \<not> isDigit (hd ''WaysAiHelps'')
   \<and> sublist ''export const WaysAiHelps: React.FC'' (video_tsx ''WaysAiHelps'' tf fps w h)"
proof -
  have a: "camelCase (Str ''3-ways-ai-helps'') = Inr ''WaysAiHelps''"
    by (simp add: camelCase_3_ways)
  have b: "valid_identifier ''WaysAiHelps''"
    by (simp add: valid_identifier_def isAlnum_def isAlpha_def isDigit_def)
  have c: "\<not> isDigit (hd ''WaysAiHelps'')"
    by (simp add: isDigit_def)
  have d: "sublist ''export const WaysAiHelps: React.FC'' (video_tsx ''WaysAiHelps'' tf fps w h)"
    using video_tsx_export [of "''WaysAiHelps''" tf fps w h] by simp
  from a b c d show ?thesis
    by simp
qed

theorem C5_identifier_3_ways_ai_helps_witness:
  "camelCase (Str ''3-ways-ai-helps'') = Inr ''WaysAiHelps''
   \<and> sublist ''export const WaysAiHelps: React.FC''
        (video_tsx ''WaysAiHelps'' (Num 1800) (Num 30) (Num 1920) (Num 1080))"
  using C5_identifier_3_ways_ai_helps [of "Num 1800" "Num 30" "Num 1920" "Num 1080"]
  by blast



text \<open>
  Claim C7, as amended. A reply without a fenced JSON block (an opening fence
  \<^verbatim>\<open>```json\<close> with its line feed, at least one character, and a closing fence) makes the
  extraction fail with an extraction error, and the run stops there with the world as it
  was: no file has been written. The error is the one about the JSON block exactly when
  the reply has a fenced YAML block; otherwise it is the one about the YAML block, which
  is looked for first.
\<close>

theorem C7_no_json_block:
  assumes "\<not> (\<exists>pre body post. reply = pre @ ''```json\<newline>'' @ body @ ''```'' @ post \<and> body \<noteq> [])"
  shows "\<exists>err. extractBlocks reply = Inl err
           \<and> classify err = ExtractionError
           \<and> (err = NoJsonBlock) = (\<exists>pre body post. reply = pre @ ''```yaml\<newline>'' @ body @ ''```'' @ post \<and> body \<noteq> [])
           \<and> process_reply e out (Str reply) st = (Inl err, st)"
proof -
  from assms have j: "match_fence ''```json\<newline>'' reply = None"
    unfolding match_fence_None_iff .
  show ?thesis
  proof (cases "match_fence ''```yaml\<newline>'' reply")
    case None
    then have n: "\<not> (\<exists>pre body post. reply = pre @ ''```yaml\<newline>'' @ body @ ''```'' @ post \<and> body \<noteq> [])"
      unfolding match_fence_None_iff .
    from None have "extractBlocks reply = Inl NoYamlBlock"
      by (simp add: extractBlocks_def)
    with n show ?thesis by (simp add: process_reply_def)
  next
    case (Some m)
    then have "match_fence ''```yaml\<newline>'' reply \<noteq> None" by simp
    then have y: "\<exists>pre body post. reply = pre @ ''```yaml\<newline>'' @ body @ ''```'' @ post \<and> body \<noteq> []"
      unfolding match_fence_None_iff by blast
    from Some j have "extractBlocks reply = Inl NoJsonBlock"
      by (simp add: extractBlocks_def split: prod.splits)
    with y show ?thesis by (simp add: process_reply_def)
  qed
qed

theorem C7_counterexample:
  "match_fence ''```json\<newline>'' ''No storyboard today.'' = None
   \<and> extractBlocks ''No storyboard today.'' = Inl NoYamlBlock
   \<and> NoYamlBlock \<noteq> NoJsonBlock"
  by (simp add: extractBlocks_def)

theorem C7_no_json_block_witness:
  "extractBlocks demo_reply_no_json = Inl NoJsonBlock
   \<and> classify NoJsonBlock = ExtractionError
   \<and> process_reply (demo_env yaml_full json_full parsed_full) ''out'' (Str demo_reply_no_json) demo_started = (Inl NoJsonBlock, demo_started)"
proof -
  have "match_fence ''```json\<newline>'' demo_reply_no_json = None"
    by (simp add: demo_reply_no_json_def)
  then have h: "\<not> (\<exists>pre body post. demo_reply_no_json = pre @ ''```json\<newline>'' @ body @ ''```'' @ post \<and> body \<noteq> [])"
    unfolding match_fence_None_iff .
  have x: "extractBlocks demo_reply_no_json = Inl NoJsonBlock"
    by (simp add: extractBlocks_def demo_reply_no_json_def lazy_body_def)
  from C7_no_json_block [OF h, of "demo_env yaml_full json_full parsed_full" "''out''" demo_started] x show ?thesis
    by auto
qed

text \<open>
  Claim C8. Without the credential \<^verbatim>\<open>callOpenAI\<close> throws the configuration error and
  leaves the world as it was, for every prompt; the whole run then fails, and the number
  of requests sent is the one at its start.
\<close>

theorem C8_missing_credential:
  assumes "api_key e = None"
  shows "callOpenAI e prompt st = (Inl ApiKeyNotSet, st)
         \<and> classify ApiKeyNotSet = ConfigurationError
         \<and> net_calls (snd (callOpenAI e prompt st)) = net_calls st
         \<and> net_calls (snd (main e st)) = net_calls st
         \<and> (\<exists>a. fst (main e st) = Inl a)"
proof -
  have a: "callOpenAI e prompt st = (Inl ApiKeyNotSet, st)"
    using assms by (rule callOpenAI_no_key)
  have m: "net_calls (snd (main e st)) = net_calls st \<and> (\<exists>a. fst (main e st) = Inl a)"
  proof (cases "parseArgs (argv e)")
    case (Inl a)
    then show ?thesis by (simp add: main_def)
  next
    case (Inr io)
    obtain inp out where io: "io = (inp, out)" by (cases io)
    from pipeline_no_key [OF assms, of inp out st]
    obtain err st' where "pipeline e inp out st = (Inl err, st')" "net_calls st' = net_calls st"
      by blast
    with Inr io show ?thesis by (simp add: main_def)
  qed
  from a m show ?thesis by simp
qed

theorem C8_missing_credential_witness:
  "api_key demo_env_no_key = None
   \<and> callOpenAI demo_env_no_key ''prompt'' demo_world = (Inl ApiKeyNotSet, demo_world)
   \<and> net_calls (snd (main demo_env_no_key demo_world)) = 0
   \<and> (\<exists>a. fst (main demo_env_no_key demo_world) = Inl a)"
proof -
  have h: "api_key demo_env_no_key = None"
    by (simp add: demo_env_no_key_def)
  have n: "net_calls demo_world = 0"
    by (simp add: demo_world_def)
  from C8_missing_credential [OF h, of "''prompt''" demo_world] h n show ?thesis
    by simp
qed






end
